theory Spec2Isabelle
  imports Main "HOL-Library.Sublist"
begin

section \<open>Python values used by the batch pipeline\<close>

text \<open>
  Text is a \<^typ>\<open>string\<close>; a character stands for one code point below 256.
  \<open>py_isspace\<close> lists the code points below 256 for which Python's
  \<open>str.isspace\<close> holds; \<open>strip\<close> is \<open>str.strip()\<close> without arguments.
\<close>

definition py_isspace :: "char \<Rightarrow> bool" where
  "py_isspace c = (c \<in> set [CHR 0x09, CHR 0x0A, CHR 0x0B, CHR 0x0C, CHR 0x0D,
                             CHR 0x1C, CHR 0x1D, CHR 0x1E, CHR 0x1F, CHR 0x20,
                             CHR 0x85, CHR 0xA0])"

definition lstrip :: "string \<Rightarrow> string" where
  "lstrip s = dropWhile py_isspace s"

definition rstrip :: "string \<Rightarrow> string" where
  "rstrip s = rev (dropWhile py_isspace (rev s))"

definition strip :: "string \<Rightarrow> string" where
  "strip s = rstrip (lstrip s)"

text \<open>\<open>sep.join(xs)\<close>\<close>

fun join :: "string \<Rightarrow> string list \<Rightarrow> string" where
  "join sep [] = []"
| "join sep [x] = x"
| "join sep (x # y # ys) = x @ sep @ join sep (y # ys)"

definition NL :: string where
  "NL = [CHR 0x0A]"

text \<open>
  The value of \<open>json.loads\<close>. Python's \<open>None\<close> is \<open>JNull\<close>; an object keeps its
  members in file order and \<open>dict_get\<close> reads the last one of a repeated key, as
  the dict built by \<open>json.loads\<close> does. Numbers are the integers.
\<close>

datatype json =
    JNull
  | JBool bool
  | JNum int
  | JStr string
  | JArr "json list"
  | JObj "(string \<times> json) list"

datatype error = JSONDecodeError | AttributeError | TypeError | KeyError

text \<open>Truth value of a Python object, as \<open>if not x\<close> tests it.\<close>

fun truthy :: "json \<Rightarrow> bool" where
  "truthy JNull = False"
| "truthy (JBool b) = b"
| "truthy (JNum n) = (n \<noteq> 0)"
| "truthy (JStr s) = (s \<noteq> [])"
| "truthy (JArr xs) = (xs \<noteq> [])"
| "truthy (JObj kvs) = (kvs \<noteq> [])"

text \<open>\<open>a or b\<close>\<close>

definition py_or :: "json \<Rightarrow> json \<Rightarrow> json" where
  "py_or a b = (if truthy a then a else b)"

text \<open>
  \<open>x.get(key, default)\<close>: an \<open>AttributeError\<close> unless \<open>x\<close> is a dict.
  \<open>x.get(key)\<close> is \<open>get_default x key JNull\<close>.
\<close>

definition dict_get :: "(string \<times> json) list \<Rightarrow> string \<Rightarrow> json \<Rightarrow> json" where
  "dict_get kvs k d = (case map_of (rev kvs) k of None \<Rightarrow> d | Some v \<Rightarrow> v)"

fun get_default :: "json \<Rightarrow> string \<Rightarrow> json \<Rightarrow> error + json" where
  "get_default (JObj kvs) k d = Inr (dict_get kvs k d)"
| "get_default _ k d = Inl AttributeError"

text \<open>
  A value used as a dict key: lists and dicts are unhashable (\<open>TypeError\<close>), and
  \<open>True\<close> is the key \<open>1\<close>.
\<close>

fun dict_key :: "json \<Rightarrow> error + json" where
  "dict_key (JArr xs) = Inl TypeError"
| "dict_key (JObj kvs) = Inl TypeError"
| "dict_key (JBool b) = Inr (JNum (if b then 1 else 0))"
| "dict_key v = Inr v"

section \<open>init\_methods\_book.py: text extraction\<close>

text \<open>
  \<open>extract_output_text_from_response_obj\<close>. \<open>item_chunk\<close> is the body of the inner
  loop: the value appended to \<open>chunks\<close> for one content item, if any.
\<close>

definition item_chunk :: "json \<Rightarrow> error + json option" where
  "item_chunk item =
     (case get_default item ''type'' JNull of
        Inl e \<Rightarrow> Inl e
      | Inr ty \<Rightarrow>
          if ty \<noteq> JStr ''output_text'' then Inr None
          else (case get_default item ''text'' JNull of
                  Inl e \<Rightarrow> Inl e
                | Inr text_field \<Rightarrow>
                    let val = (case text_field of
                                 JObj tf \<Rightarrow> py_or (dict_get tf ''value'' JNull)
                                             (py_or (dict_get tf ''content'' JNull) (JStr []))
                               | JStr s \<Rightarrow> JStr s
                               | _ \<Rightarrow> JStr [])
                    in Inr (if truthy val then Some val else None)))"

fun content_chunks :: "json list \<Rightarrow> error + json list" where
  "content_chunks [] = Inr []"
| "content_chunks (item # items) =
     (case item_chunk item of
        Inl e \<Rightarrow> Inl e
      | Inr c \<Rightarrow> (case content_chunks items of
                    Inl e \<Rightarrow> Inl e
                  | Inr cs \<Rightarrow> Inr ((case c of None \<Rightarrow> [] | Some v \<Rightarrow> [v]) @ cs)))"

fun output_chunks :: "json list \<Rightarrow> error + json list" where
  "output_chunks [] = Inr []"
| "output_chunks (msg # msgs) =
     (case get_default msg ''content'' (JArr []) of
        Inl e \<Rightarrow> Inl e
      | Inr content \<Rightarrow>
          (case (case content of JArr items \<Rightarrow> content_chunks items | _ \<Rightarrow> Inr []) of
             Inl e \<Rightarrow> Inl e
           | Inr cs \<Rightarrow> (case output_chunks msgs of
                         Inl e \<Rightarrow> Inl e
                       | Inr ds \<Rightarrow> Inr (cs @ ds))))"

text \<open>\<open>"\n".join(chunks)\<close> raises \<open>TypeError\<close> on a chunk that is not a string.\<close>

fun str_chunks :: "json list \<Rightarrow> error + string list" where
  "str_chunks [] = Inr []"
| "str_chunks (JStr s # cs) = (case str_chunks cs of Inl e \<Rightarrow> Inl e | Inr ss \<Rightarrow> Inr (s # ss))"
| "str_chunks (_ # cs) = Inl TypeError"

definition extract_output_text_from_response_obj :: "json \<Rightarrow> error + string" where
  "extract_output_text_from_response_obj body =
     (case get_default body ''output'' (JArr []) of
        Inl e \<Rightarrow> Inl e
      | Inr output_list \<Rightarrow>
          (case output_list of
             JArr msgs \<Rightarrow>
               (case output_chunks msgs of
                  Inl e \<Rightarrow> Inl e
                | Inr chunks \<Rightarrow>
                    (case str_chunks chunks of
                       Inl e \<Rightarrow> Inl e
                     | Inr ss \<Rightarrow> Inr (strip (join NL ss))))
           | _ \<Rightarrow> Inr []))"

text \<open>
  \<open>extract_block\<close>: \<open>str_index s p\<close> is \<open>s.index(p)\<close>, with \<open>None\<close> for the
  \<open>ValueError\<close> that the function catches.
\<close>

fun str_index :: "string \<Rightarrow> string \<Rightarrow> nat option" where
  "str_index [] p = (if p = [] then Some 0 else None)"
| "str_index (c # cs) p =
     (if prefix p (c # cs) then Some 0 else map_option Suc (str_index cs p))"

definition extract_block :: "string \<Rightarrow> string \<Rightarrow> string \<Rightarrow> string" where
  "extract_block full_text start_marker end_marker =
     (case str_index full_text start_marker of
        None \<Rightarrow> []
      | Some a \<Rightarrow>
          let i = a + length start_marker in
          (case str_index (drop i full_text) end_marker of
             None \<Rightarrow> []
           | Some b \<Rightarrow> strip (take b (drop i full_text))))"

definition INQUIRY_START :: string where "INQUIRY_START = ''%%% INQUIRY START %%%''"
definition INQUIRY_END :: string where "INQUIRY_END = ''%%% INQUIRY END %%%''"
definition SOLUTION_START :: string where "SOLUTION_START = ''%%% SOLUTION START %%%''"
definition SOLUTION_END :: string where "SOLUTION_END = ''%%% SOLUTION END %%%''"

section \<open>init\_methods\_book.py: parse\_round\_results\<close>

record example_state =
  completed :: bool
  incomplete_reason :: json
  status_code :: json

text \<open>
  The two dicts the caller passes in and the local list \<open>incomplete_ids\<close>.
\<close>

record round_state =
  combined_text_by_id :: "json \<rightharpoonup> string"
  example_state_by_id :: "json \<rightharpoonup> example_state"
  incomplete_ids :: "json list"

text \<open>
  A line of the results file, as \<open>line.strip()\<close> and \<open>json.loads\<close> see it: blank,
  not JSON, or a JSON value.
\<close>

datatype file_line = BlankLine | NotJson | JsonLine json

definition all_markers :: "string \<Rightarrow> bool" where
  "all_markers combined_text =
     (sublist INQUIRY_START combined_text \<and> sublist INQUIRY_END combined_text \<and>
      sublist SOLUTION_START combined_text \<and> sublist SOLUTION_END combined_text)"

text \<open>The new value of \<open>combined_text_by_id[custom_id]\<close>.\<close>

definition combine :: "string option \<Rightarrow> string \<Rightarrow> string" where
  "combine stored full_text_segment =
     (let prev = (case stored of None \<Rightarrow> [] | Some t \<Rightarrow> t)
      in strip (if prev \<noteq> [] then prev @ NL @ full_text_segment else full_text_segment))"

text \<open>
  The loop body for one line holding the JSON value \<open>obj\<close>, in three parts: the branch
  \<open>if not resp\<close>, the assignments after the text segment has been extracted, and the
  reads that come before them. Every statement that can raise comes before the first
  assignment to a dict, so a raising line leaves both dicts as they were.
\<close>

definition mark_no_response :: "round_state \<Rightarrow> json \<Rightarrow> json \<Rightarrow> error + round_state" where
  "mark_no_response st custom_id err =
     (case dict_key custom_id of
        Inl e \<Rightarrow> Inl e
      | Inr k \<Rightarrow>
          Inr (st\<lparr>example_state_by_id := (example_state_by_id st)(k \<mapsto>
                    \<lparr>completed = False,
                     incomplete_reason =
                       JObj [(''reason'', JStr ''no_response''), (''error'', err)],
                     status_code = JNull\<rparr>),
                  incomplete_ids := incomplete_ids st @ [custom_id]\<rparr>))"

definition store_segment ::
  "round_state \<Rightarrow> json \<Rightarrow> json \<Rightarrow> json \<Rightarrow> string \<Rightarrow> error + round_state" where
  "store_segment st custom_id status incomplete_details full_text_segment =
     (case dict_key custom_id of
        Inl e \<Rightarrow> Inl e
      | Inr k \<Rightarrow>
          let combined = combine (combined_text_by_id st k) full_text_segment;
              ct = (combined_text_by_id st)(k \<mapsto> combined)
          in if all_markers combined then
               Inr (st\<lparr>combined_text_by_id := ct,
                       example_state_by_id := (example_state_by_id st)(k \<mapsto>
                         \<lparr>completed = True, incomplete_reason = JNull,
                          status_code = status\<rparr>)\<rparr>)
             else
               Inr (st\<lparr>combined_text_by_id := ct,
                       example_state_by_id := (example_state_by_id st)(k \<mapsto>
                         \<lparr>completed = False,
                          incomplete_reason =
                            py_or incomplete_details
                              (JObj [(''reason'', JStr ''markers_missing'')]),
                          status_code = status\<rparr>),
                       incomplete_ids := incomplete_ids st @ [custom_id]\<rparr>))"

definition process_response :: "round_state \<Rightarrow> json \<Rightarrow> json \<Rightarrow> error + round_state" where
  "process_response st custom_id resp =
     (case get_default resp ''status_code'' (JNum 0) of
        Inl e \<Rightarrow> Inl e
      | Inr status \<Rightarrow>
     (case get_default resp ''body'' JNull of
        Inl e \<Rightarrow> Inl e
      | Inr b \<Rightarrow>
     (case get_default (py_or b (JObj [])) ''status'' JNull of
        Inl e \<Rightarrow> Inl e
      | Inr body_status \<Rightarrow>
     (case get_default (py_or b (JObj [])) ''incomplete_details'' JNull of
        Inl e \<Rightarrow> Inl e
      | Inr incomplete_details \<Rightarrow>
     (case extract_output_text_from_response_obj (py_or b (JObj [])) of
        Inl e \<Rightarrow> Inl e
      | Inr full_text_segment \<Rightarrow>
          store_segment st custom_id status incomplete_details full_text_segment)))))"

definition process_record :: "round_state \<Rightarrow> json \<Rightarrow> error + round_state" where
  "process_record st obj =
     (case get_default obj ''custom_id'' JNull of
        Inl e \<Rightarrow> Inl e
      | Inr custom_id \<Rightarrow>
          if \<not> truthy custom_id then Inr st
          else
            (case get_default obj ''response'' JNull of
               Inl e \<Rightarrow> Inl e
             | Inr resp \<Rightarrow>
            (case get_default obj ''error'' JNull of
               Inl e \<Rightarrow> Inl e
             | Inr err \<Rightarrow>
                 if \<not> truthy resp then mark_no_response st custom_id err
                 else process_response st custom_id resp)))"

definition process_line :: "round_state \<Rightarrow> file_line \<Rightarrow> error + round_state" where
  "process_line st l =
     (case l of
        BlankLine \<Rightarrow> Inr st
      | NotJson \<Rightarrow> Inl JSONDecodeError
      | JsonLine obj \<Rightarrow> process_record st obj)"

fun process_lines :: "round_state \<Rightarrow> file_line list \<Rightarrow> error + round_state" where
  "process_lines st [] = Inr st"
| "process_lines st (l # ls) =
     (case process_line st l of
        Inl e \<Rightarrow> Inl e
      | Inr st' \<Rightarrow> process_lines st' ls)"

text \<open>
  \<open>parse_round_results\<close>: the result holds the two dicts as the call leaves them and the
  returned list \<open>incomplete_ids\<close>.
\<close>

definition parse_round_results ::
  "file_line list \<Rightarrow> (json \<rightharpoonup> string) \<Rightarrow> (json \<rightharpoonup> example_state) \<Rightarrow> error + round_state" where
  "parse_round_results results ct es =
     process_lines \<lparr>combined_text_by_id = ct, example_state_by_id = es, incomplete_ids = []\<rparr> results"

text \<open>
  The shape of a result record on which the loop body raises nothing: the record is an
  object; when it has an identifier, the identifier is hashable; when it has a response, the
  response is an object whose body is absent or an object; the messages of a list-valued
  \<open>output\<close> and the items of a list-valued \<open>content\<close> are objects; and the text of
  an \<open>output_text\<close> item, when it is an object, holds a string or nothing.
\<close>

fun is_dict :: "json \<Rightarrow> bool" where
  "is_dict (JObj kvs) = True"
| "is_dict _ = False"

fun is_str :: "json \<Rightarrow> bool" where
  "is_str (JStr s) = True"
| "is_str _ = False"

fun is_hashable :: "json \<Rightarrow> bool" where
  "is_hashable (JArr xs) = False"
| "is_hashable (JObj kvs) = False"
| "is_hashable _ = True"

definition wf_item :: "json \<Rightarrow> bool" where
  "wf_item item =
     (case item of
        JObj kvs \<Rightarrow>
          (if dict_get kvs ''type'' JNull = JStr ''output_text'' then
             (case dict_get kvs ''text'' JNull of
                JObj tf \<Rightarrow> is_str (py_or (dict_get tf ''value'' JNull)
                                   (py_or (dict_get tf ''content'' JNull) (JStr [])))
              | _ \<Rightarrow> True)
           else True)
      | _ \<Rightarrow> False)"

definition wf_msg :: "json \<Rightarrow> bool" where
  "wf_msg msg =
     (case msg of
        JObj kvs \<Rightarrow>
          (case dict_get kvs ''content'' (JArr []) of
             JArr items \<Rightarrow> list_all wf_item items
           | _ \<Rightarrow> True)
      | _ \<Rightarrow> False)"

definition wf_body :: "json \<Rightarrow> bool" where
  "wf_body body =
     (case body of
        JObj kvs \<Rightarrow>
          (case dict_get kvs ''output'' (JArr []) of
             JArr msgs \<Rightarrow> list_all wf_msg msgs
           | _ \<Rightarrow> True)
      | _ \<Rightarrow> False)"

definition wf_record :: "json \<Rightarrow> bool" where
  "wf_record obj =
     (case obj of
        JObj kvs \<Rightarrow>
          (if \<not> truthy (dict_get kvs ''custom_id'' JNull) then True
           else if \<not> is_hashable (dict_get kvs ''custom_id'' JNull) then False
           else if \<not> truthy (dict_get kvs ''response'' JNull) then True
           else (case dict_get kvs ''response'' JNull of
                   JObj r \<Rightarrow> wf_body (py_or (dict_get r ''body'' JNull) (JObj []))
                 | _ \<Rightarrow> False))
      | _ \<Rightarrow> False)"

definition wf_line :: "file_line \<Rightarrow> bool" where
  "wf_line l = (case l of BlankLine \<Rightarrow> True | NotJson \<Rightarrow> False | JsonLine obj \<Rightarrow> wf_record obj)"

text \<open>A text that \<open>strip\<close> leaves as it is.\<close>

definition stripped :: "string \<Rightarrow> bool" where
  "stripped t = (t = [] \<or> (\<not> py_isspace (hd t) \<and> \<not> py_isspace (last t)))"

text \<open>
  What holds of the two dicts in every state that \<open>run_example_batch\<close> reaches from its
  empty dicts: stored texts are stripped, and an example marked completed has a stored text
  with all four markers.
\<close>

definition store_inv :: "(json \<rightharpoonup> string) \<Rightarrow> (json \<rightharpoonup> example_state) \<Rightarrow> bool" where
  "store_inv ct es =
     ((\<forall>k t. ct k = Some t \<longrightarrow> stripped t) \<and>
      (\<forall>k s. es k = Some s \<longrightarrow> completed s \<longrightarrow> (\<exists>t. ct k = Some t \<and> all_markers t)))"

text \<open>
  A line that sets the state of the example with key \<open>k\<close> to not completed whatever
  the state was: a record for \<open>k\<close> that carries no response.
\<close>

definition resets :: "json \<Rightarrow> file_line \<Rightarrow> bool" where
  "resets k l =
     (case l of
        JsonLine (JObj kvs) \<Rightarrow>
          truthy (dict_get kvs ''custom_id'' JNull) \<and>
          dict_key (dict_get kvs ''custom_id'' JNull) = Inr k \<and>
          \<not> truthy (dict_get kvs ''response'' JNull)
      | _ \<Rightarrow> False)"

section \<open>init\_methods\_book.py: run\_example\_batch\<close>

text \<open>
  The function is modelled from the point where \<open>spec_by_custom_id\<close> has been built:
  \<open>specs\<close> holds its items in dict order.
\<close>

record example_meta =
  chapter_title :: string
  section_title :: string
  ex_index :: nat
  ex_title :: string
  ex_summary :: string

record example_output =
  title :: string
  inquiry :: string
  solution :: string

type_synonym output_key = "string \<times> string \<times> nat"

text \<open>
  A request line: the identifier and the prompt, which is the full prompt of round 1 or a
  continuation prompt showing the text so far. The prompt texts themselves are not modelled.
\<close>

datatype prompt = FullPrompt example_meta | ContinuationPrompt example_meta string

definition spec_lookup :: "(string \<times> example_meta) list \<Rightarrow> json \<Rightarrow> error + example_meta" where
  "spec_lookup specs custom_id =
     (case dict_key custom_id of
        Inl e \<Rightarrow> Inl e
      | Inr k \<Rightarrow>
          (case k of
             JStr s \<Rightarrow> (case map_of specs s of None \<Rightarrow> Inl KeyError | Some meta \<Rightarrow> Inr meta)
           | _ \<Rightarrow> Inl KeyError))"

definition stored_text :: "(json \<rightharpoonup> string) \<Rightarrow> json \<Rightarrow> string" where
  "stored_text ct k = (case ct k of None \<Rightarrow> [] | Some t \<Rightarrow> t)"

fun build_requests ::
  "(string \<times> example_meta) list \<Rightarrow> nat \<Rightarrow> (json \<rightharpoonup> string) \<Rightarrow> json list \<Rightarrow>
   error + (json \<times> prompt) list" where
  "build_requests specs round_idx ct [] = Inr []"
| "build_requests specs round_idx ct (custom_id # ids) =
     (case spec_lookup specs custom_id of
        Inl e \<Rightarrow> Inl e
      | Inr meta \<Rightarrow>
          (case build_requests specs round_idx ct ids of
             Inl e \<Rightarrow> Inl e
           | Inr reqs \<Rightarrow>
               let existing_text = strip (stored_text ct custom_id);
                   p = (if round_idx = 1 \<or> existing_text = [] then FullPrompt meta
                        else ContinuationPrompt meta existing_text)
               in Inr ((custom_id, p) # reqs)))"

text \<open>
  What round \<open>round_idx\<close> finds outside the program: the results file of that round if it
  is already on disk, the statuses that successive \<open>batches.retrieve\<close> calls report, and
  the content of the job's output file if the job has one. The status list is the fuel of
  the polling loop: when it runs out before a final status, the loop has not returned.
\<close>

record round_env =
  existing_results :: "file_line list option"
  job_statuses :: "string list"
  output_file :: "file_line list option"

fun poll :: "string list \<Rightarrow> bool option" where
  "poll [] = None"
| "poll (status # later) =
     (if status = ''completed'' then Some True
      else if status \<in> {''failed'', ''cancelled'', ''expired''} then Some False
      else poll later)"

datatype fetched = Results "file_line list" | NoClient | ReturnEmpty

definition fetch_results :: "bool \<Rightarrow> round_env \<Rightarrow> fetched option" where
  "fetch_results client env =
     (case existing_results env of
        Some ls \<Rightarrow> Some (Results ls)
      | None \<Rightarrow>
          if \<not> client then Some NoClient
          else (case poll (job_statuses env) of
                  None \<Rightarrow> None
                | Some False \<Rightarrow> Some ReturnEmpty
                | Some True \<Rightarrow>
                    (case output_file env of
                       None \<Rightarrow> Some ReturnEmpty
                     | Some ls \<Rightarrow> Some (Results ls))))"

text \<open>
  The body of the loop over rounds. It ends the function by \<open>return {}\<close>
  (\<open>Aborted\<close>), leaves the loop by \<open>break\<close> with the two dicts (\<open>Finished\<close>),
  raises, goes on to the next round with the identifiers still incomplete, or does not
  return from polling.
\<close>

datatype loop_result = Aborted | Finished "json \<rightharpoonup> string" "json \<rightharpoonup> example_state"

datatype round_outcome =
    NextRound "json list" "json \<rightharpoonup> string" "json \<rightharpoonup> example_state"
  | Stop "error + loop_result"
  | NoReturn

definition run_round ::
  "(string \<times> example_meta) list \<Rightarrow> bool \<Rightarrow> (nat \<Rightarrow> round_env) \<Rightarrow> nat \<Rightarrow> json list \<Rightarrow>
   (json \<rightharpoonup> string) \<Rightarrow> (json \<rightharpoonup> example_state) \<Rightarrow> round_outcome" where
  "run_round specs client env round_idx remaining_ids ct es =
     (if remaining_ids = [] then Stop (Inr (Finished ct es))
      else
        (case build_requests specs round_idx ct remaining_ids of
           Inl e \<Rightarrow> Stop (Inl e)
         | Inr reqs \<Rightarrow>
             (case fetch_results client (env round_idx) of
                None \<Rightarrow> NoReturn
              | Some NoClient \<Rightarrow> Stop (Inr (Finished ct es))
              | Some ReturnEmpty \<Rightarrow> Stop (Inr Aborted)
              | Some (Results results) \<Rightarrow>
                  (case parse_round_results results ct es of
                     Inl e \<Rightarrow> Stop (Inl e)
                   | Inr st \<Rightarrow>
                       if incomplete_ids st = [] then
                         Stop (Inr (Finished (combined_text_by_id st) (example_state_by_id st)))
                       else
                         NextRound (incomplete_ids st) (combined_text_by_id st)
                           (example_state_by_id st)))))"

text \<open>
  \<open>for round_idx in range(1, max_rounds + 1)\<close>, with \<open>n\<close> the number of rounds left.
\<close>

fun round_loop ::
  "(string \<times> example_meta) list \<Rightarrow> bool \<Rightarrow> (nat \<Rightarrow> round_env) \<Rightarrow> nat \<Rightarrow> nat \<Rightarrow> json list \<Rightarrow>
   (json \<rightharpoonup> string) \<Rightarrow> (json \<rightharpoonup> example_state) \<Rightarrow> (error + loop_result) option" where
  "round_loop specs client env round_idx 0 remaining_ids ct es = Some (Inr (Finished ct es))"
| "round_loop specs client env round_idx (Suc n) remaining_ids ct es =
     (case run_round specs client env round_idx remaining_ids ct es of
        NextRound ids ct' es' \<Rightarrow> round_loop specs client env (Suc round_idx) n ids ct' es'
      | Stop r \<Rightarrow> Some r
      | NoReturn \<Rightarrow> None)"

text \<open>
  The identifiers and dicts with which a later round begins: \<open>after_rounds \<dots> k\<close> runs
  \<open>k\<close> rounds, each of which goes on to the next one.
\<close>

fun after_rounds ::
  "(string \<times> example_meta) list \<Rightarrow> bool \<Rightarrow> (nat \<Rightarrow> round_env) \<Rightarrow> nat \<Rightarrow> nat \<Rightarrow> json list \<Rightarrow>
   (json \<rightharpoonup> string) \<Rightarrow> (json \<rightharpoonup> example_state) \<Rightarrow>
   (nat \<times> json list \<times> (json \<rightharpoonup> string) \<times> (json \<rightharpoonup> example_state)) option" where
  "after_rounds specs client env round_idx 0 remaining_ids ct es =
     Some (round_idx, remaining_ids, ct, es)"
| "after_rounds specs client env round_idx (Suc k) remaining_ids ct es =
     (case run_round specs client env round_idx remaining_ids ct es of
        NextRound ids ct' es' \<Rightarrow> after_rounds specs client env (Suc round_idx) k ids ct' es'
      | _ \<Rightarrow> None)"

definition example_output_of :: "example_meta \<Rightarrow> string \<Rightarrow> example_output" where
  "example_output_of meta combined =
     (let inquiry_block = extract_block combined INQUIRY_START INQUIRY_END;
          solution_block = extract_block combined SOLUTION_START SOLUTION_END
      in \<lparr>title = ex_title meta,
          inquiry = inquiry_block,
          solution = (if solution_block \<noteq> [] then solution_block else combined)\<rparr>)"

definition output_key_of :: "example_meta \<Rightarrow> output_key" where
  "output_key_of meta = (chapter_title meta, section_title meta, ex_index meta)"

fun build_outputs ::
  "(string \<times> example_meta) list \<Rightarrow> (json \<rightharpoonup> string) \<Rightarrow> (output_key \<rightharpoonup> example_output) \<Rightarrow>
   (output_key \<rightharpoonup> example_output)" where
  "build_outputs [] ct example_outputs = example_outputs"
| "build_outputs ((custom_id, meta) # rest) ct example_outputs =
     (let combined = strip (stored_text ct (JStr custom_id))
      in if combined = [] then build_outputs rest ct example_outputs
         else build_outputs rest ct
                (example_outputs(output_key_of meta \<mapsto> example_output_of meta combined)))"

text \<open>
  \<open>None\<close>: the polling loop has not returned; \<open>Some (Inl e)\<close>: the call raised \<open>e\<close>;
  \<open>Some (Inr outs)\<close>: the returned dict.
\<close>

definition run_example_batch ::
  "(string \<times> example_meta) list \<Rightarrow> bool \<Rightarrow> (nat \<Rightarrow> round_env) \<Rightarrow> int \<Rightarrow>
   (error + (output_key \<rightharpoonup> example_output)) option" where
  "run_example_batch specs client env max_rounds =
     (if specs = [] then Some (Inr Map.empty)
      else
        (case round_loop specs client env 1 (nat max_rounds) (map (\<lambda>(cid, meta). JStr cid) specs)
                Map.empty Map.empty of
           None \<Rightarrow> None
         | Some (Inl e) \<Rightarrow> Some (Inl e)
         | Some (Inr Aborted) \<Rightarrow> Some (Inr Map.empty)
         | Some (Inr (Finished ct es)) \<Rightarrow> Some (Inr (build_outputs specs ct Map.empty))))"

section \<open>Python slices\<close>

text \<open>
  A slice bound, normalised as Python does for a sequence of length \<open>n\<close>: a negative
  bound counts from the end, and every bound is clamped to \<open>0 .. n\<close>.
\<close>

definition slice_bound :: "nat \<Rightarrow> int \<Rightarrow> nat" where
  "slice_bound n i = (if i < 0 then nat (max 0 (int n + i)) else min n (nat i))"

text \<open>\<open>xs[i:j]\<close>\<close>

definition py_slice :: "'a list \<Rightarrow> int \<Rightarrow> int \<Rightarrow> 'a list" where
  "py_slice xs i j =
     (let lo = slice_bound (length xs) i; hi = slice_bound (length xs) j
      in take (hi - lo) (drop lo xs))"

text \<open>\<open>xs[i:j] = ys\<close>: an empty range inserts at \<open>i\<close>.\<close>

definition py_slice_assign :: "'a list \<Rightarrow> int \<Rightarrow> int \<Rightarrow> 'a list \<Rightarrow> 'a list" where
  "py_slice_assign xs i j ys =
     (let lo = slice_bound (length xs) i; hi = max lo (slice_bound (length xs) j)
      in take lo xs @ ys @ drop hi xs)"

section \<open>latex\_scan\_regions.py\<close>

definition ERROR_PATTERNS :: "string list" where
  "ERROR_PATTERNS =
     [''Missing $ inserted.'',
      ''Bad math environment delimiter.'',
      CHR 0x5C # ''begin{aligned} allowed only in math mode.'',
      ''Undefined control sequence.'']"

text \<open>\<open>line.startswith("!") and ERROR_RE.search(line)\<close>\<close>

definition is_error_line :: "string \<Rightarrow> bool" where
  "is_error_line l = (prefix ''!'' l \<and> list_ex (\<lambda>p. sublist p l) ERROR_PATTERNS)"

definition is_digit :: "char \<Rightarrow> bool" where
  "is_digit c = (c \<in> set ''0123456789'')"

definition digit_val :: "char \<Rightarrow> nat" where
  "digit_val c = length (takeWhile (\<lambda>d. d \<noteq> c) ''0123456789'')"

definition int_of_digits :: "string \<Rightarrow> nat" where
  "int_of_digits ds = foldl (\<lambda>a c. 10 * a + digit_val c) 0 ds"

text \<open>
  \<open>re.match(r"l\.(\d+)\s", s)\<close> and \<open>int(m.group(1))\<close>: the digits are all the digits
  after \<open>l.\<close>, since the character after the group must be white space.
\<close>

definition match_lineno :: "string \<Rightarrow> nat option" where
  "match_lineno s =
     (if prefix ''l.'' s then
        (let ds = takeWhile is_digit (drop 2 s); after = dropWhile is_digit (drop 2 s)
         in if ds \<noteq> [] \<and> after \<noteq> [] \<and> py_isspace (hd after) then Some (int_of_digits ds)
            else None)
      else None)"

text \<open>
  The inner loop of \<open>parse_errors\<close>: the first \<open>j\<close> in
  \<open>range(i + 1, min(i + 6, len(lines)))\<close> whose line matches, with the line number.
\<close>

definition find_lineno :: "string list \<Rightarrow> nat \<Rightarrow> (nat \<times> nat) option" where
  "find_lineno lines i =
     (case find (\<lambda>j. match_lineno (lines ! j) \<noteq> None) [i + 1 ..< min (i + 6) (length lines)] of
        None \<Rightarrow> None
      | Some j \<Rightarrow> map_option (\<lambda>n. (j, n)) (match_lineno (lines ! j)))"

record base_error =
  line :: nat
  context_chunk :: string

definition error_at :: "string list \<Rightarrow> nat \<Rightarrow> base_error option" where
  "error_at lines i =
     (if is_error_line (lines ! i) then
        (case find_lineno lines i of
           None \<Rightarrow> None
         | Some (j, line_no) \<Rightarrow>
             Some \<lparr>line = line_no,
                   context_chunk = join NL (py_slice lines (max 0 (int i - 20)) (int j + 1))\<rparr>)
      else None)"

text \<open>\<open>parse_errors\<close>, on \<open>log_text.splitlines()\<close>.\<close>

definition parse_errors :: "string list \<Rightarrow> base_error list" where
  "parse_errors lines = List.map_filter (error_at lines) [0 ..< length lines]"

text \<open>
  \<open>str_rindex s p\<close> is the last index at which \<open>p\<close> occurs in \<open>s\<close>.
  \<open>match_file_marker\<close> is the pattern
  \<^verbatim>\<open>\((\./(?:themes|exams)/[^)]+\.tex)\<close> matched at the start of a text: it gives the group
  and the length of the match. The greedy \<^verbatim>\<open>[^)]+\<close> takes at least one character and
  then everything up to the last \<^verbatim>\<open>.tex\<close> before the next closing parenthesis.
\<close>

fun str_rindex :: "string \<Rightarrow> string \<Rightarrow> nat option" where
  "str_rindex [] p = (if p = [] then Some 0 else None)"
| "str_rindex (c # cs) p =
     (case str_rindex cs p of
        Some k \<Rightarrow> Some (Suc k)
      | None \<Rightarrow> if prefix p (c # cs) then Some 0 else None)"

definition marker_dir :: "string \<Rightarrow> string option" where
  "marker_dir text =
     (if prefix ''(./themes/'' text then Some ''themes''
      else if prefix ''(./exams/'' text then Some ''exams''
      else None)"

definition match_file_marker :: "string \<Rightarrow> (string \<times> nat) option" where
  "match_file_marker text =
     (case marker_dir text of
        None \<Rightarrow> None
      | Some dir \<Rightarrow>
          (case takeWhile (\<lambda>c. c \<noteq> CHR '')'') (drop (length dir + 4) text) of
             [] \<Rightarrow> None
           | c # cs \<Rightarrow>
               (case str_rindex cs ''.tex'' of
                  None \<Rightarrow> None
                | Some k \<Rightarrow>
                    Some (''./'' @ dir @ ''/'' @ take (k + 5) (c # cs), length dir + 4 + (k + 5)))))"

text \<open>
  \<open>re.findall\<close> for that pattern: \<open>findall_from n text\<close> skips \<open>n\<close> characters and then
  scans; after a match the scan goes on at the end of the match.
\<close>

fun findall_from :: "nat \<Rightarrow> string \<Rightarrow> string list" where
  "findall_from n [] = []"
| "findall_from (Suc n) (c # cs) = findall_from n cs"
| "findall_from 0 (c # cs) =
     (case match_file_marker (c # cs) of
        None \<Rightarrow> findall_from 0 cs
      | Some (g, len) \<Rightarrow> g # findall_from (len - 1) cs)"

definition guess_file :: "string \<Rightarrow> string" where
  "guess_file chunk =
     (case findall_from 0 chunk of
        [] \<Rightarrow> ''main.tex''
      | m # ms \<Rightarrow> drop 2 (last (m # ms)))"

text \<open>
  A text in which every opening of a file under \<open>themes/\<close> or \<open>exams/\<close> is
  followed, somewhere later in the text, by a closing parenthesis.
\<close>

fun markers_closed :: "string \<Rightarrow> bool" where
  "markers_closed [] = True"
| "markers_closed (c # cs) =
     ((case marker_dir (c # cs) of
         None \<Rightarrow> True
       | Some dir \<Rightarrow> CHR '')'' \<in> set (drop (length dir + 4) (c # cs))) \<and>
      markers_closed cs)"

text \<open>
  A region; the field \<open>rfile\<close> is the entry \<open>"file"\<close> of the dict, a path relative to
  the project directory.
\<close>

record region =
  rfile :: string
  error_line :: int
  start_line :: int
  end_line :: int
  snippet_raw :: "string list"
  snippet_numbered :: string

text \<open>\<open>f"{i:5d}"\<close> for \<open>i \<ge> 0\<close>\<close>

fun str_nat :: "nat \<Rightarrow> string" where
  "str_nat n =
     (if n < 10 then [''0123456789'' ! n]
      else str_nat (n div 10) @ [''0123456789'' ! (n mod 10)])"

definition fmt5 :: "nat \<Rightarrow> string" where
  "fmt5 n = replicate (5 - length (str_nat n)) CHR '' '' @ str_nat n"

text \<open>
  The part of the loop body of \<open>collect_regions\<close> that builds the region from the lines
  of the file. \<open>start\<close> is at least 1, so the numbers printed are positive.
\<close>

definition make_region :: "string \<Rightarrow> nat \<Rightarrow> int \<Rightarrow> string list \<Rightarrow> region" where
  "make_region file_rel line_no radius lines =
     (let center = int line_no;
          start = max 1 (center - radius);
          stop = min (int (length lines)) (center + radius);
          raw_snippet = py_slice lines (start - 1) stop
      in \<lparr>rfile = file_rel,
          error_line = center,
          start_line = start,
          end_line = stop,
          snippet_raw = raw_snippet,
          snippet_numbered =
            join NL (map (\<lambda>(i, l). fmt5 i @ ''  '' @ l)
                         (zip [nat start ..< nat start + length raw_snippet] raw_snippet))\<rparr>)"

text \<open>
  The loop of \<open>collect_regions\<close>. \<open>fs\<close> is the project directory at scan time: it gives
  the lines of a file that exists (\<open>read_text().splitlines()\<close>) and \<open>None\<close> for a path
  that does not exist.
\<close>

fun collect_loop ::
  "(string \<rightharpoonup> string list) \<Rightarrow> int \<Rightarrow> (string \<times> nat) set \<Rightarrow> base_error list \<Rightarrow> region list" where
  "collect_loop fs radius seen [] = []"
| "collect_loop fs radius seen (err # errs) =
     (let file_rel = guess_file (context_chunk err); key = (file_rel, line err)
      in if key \<in> seen then collect_loop fs radius seen errs
         else (case fs file_rel of
                 None \<Rightarrow> collect_loop fs radius (insert key seen) errs
               | Some lines \<Rightarrow>
                   make_region file_rel (line err) radius lines
                     # collect_loop fs radius (insert key seen) errs))"

definition collect_regions :: "string list \<Rightarrow> (string \<rightharpoonup> string list) \<Rightarrow> int \<Rightarrow> region list" where
  "collect_regions log_lines fs radius = collect_loop fs radius {} (parse_errors log_lines)"

text \<open>
  The rule of the specification for the file of an error whose line has index \<open>i\<close> in the
  log: the last marker in the 20 lines before that line, the main document when there is
  none.
\<close>

definition file_by_preceding_lines :: "string list \<Rightarrow> nat \<Rightarrow> string" where
  "file_by_preceding_lines lines i =
     guess_file (join NL (py_slice lines (max 0 (int i - 20)) (int i)))"

section \<open>latex\_fix\_and\_patch.py\<close>

text \<open>
  \<open>make_patch_for_region\<close> builds the patched file \<open>new_all_lines\<close> from the lines of
  the file, the region and the lines of the fixer's output, and returns the diff between the
  file and \<open>new_all_lines\<close>.
\<close>

definition new_all_lines :: "string list \<Rightarrow> region \<Rightarrow> string list \<Rightarrow> string list" where
  "new_all_lines all_lines r new_block =
     py_slice_assign all_lines (start_line r - 1) (end_line r) new_block"

definition old_block :: "string list \<Rightarrow> region \<Rightarrow> string list" where
  "old_block all_lines r = py_slice all_lines (start_line r - 1) (end_line r)"

section \<open>Concrete inputs\<close>

text \<open>
  The mock result records of \<open>tests/test_openai_batch.py\<close>, with shortened texts and
  identifiers.
\<close>

definition text_item :: "string \<Rightarrow> json" where
  "text_item s = JObj [(''type'', JStr ''output_text''), (''text'', JObj [(''value'', JStr s)])]"

definition response_record :: "string \<Rightarrow> string \<Rightarrow> json \<Rightarrow> string \<Rightarrow> (string \<times> json) list" where
  "response_record cid status details s =
     [(''id'', JStr ''batch_req_mock''),
      (''custom_id'', JStr cid),
      (''response'', JObj [(''status_code'', JNum 200), (''request_id'', JStr ''req_mock''),
         (''body'', JObj [(''id'', JStr ''resp_mock''), (''object'', JStr ''response''),
            (''status'', JStr status), (''incomplete_details'', details),
            (''output'', JArr [JObj [(''id'', JStr ''rs_mock''), (''type'', JStr ''reasoning''),
                                    (''summary'', JArr [])],
                              JObj [(''id'', JStr ''msg_mock''), (''type'', JStr ''message''),
                                    (''status'', JStr ''completed''),
                                    (''content'', JArr [text_item s])]])])]),
      (''error'', JNull)]"

definition MOCK_COMPLETE :: "(string \<times> json) list" where
  "MOCK_COMPLETE = response_record ''example::0'' ''completed'' JNull
     (INQUIRY_START @ NL @ ''Inquiry body here.'' @ NL @ INQUIRY_END @ NL @
      SOLUTION_START @ NL @ ''Solution body here.'' @ NL @ SOLUTION_END @ NL)"

definition MOCK_INCOMPLETE_NO_SOL_END :: "(string \<times> json) list" where
  "MOCK_INCOMPLETE_NO_SOL_END = response_record ''example::1'' ''incomplete''
     (JObj [(''reason'', JStr ''max_output_tokens'')])
     (INQUIRY_START @ NL @ ''Inquiry...'' @ NL @ INQUIRY_END @ NL @
      SOLUTION_START @ NL @ ''Partial solution, but missing end marker.'' @ NL)"

definition MOCK_NO_RESPONSE :: "(string \<times> json) list" where
  "MOCK_NO_RESPONSE =
     [(''id'', JStr ''batch_req_mock_2''), (''custom_id'', JStr ''example::2''),
      (''response'', JNull), (''error'', JObj [(''message'', JStr ''mock error'')])]"

definition mock_results :: "file_line list" where
  "mock_results = [JsonLine (JObj MOCK_COMPLETE), BlankLine,
                   JsonLine (JObj MOCK_INCOMPLETE_NO_SOL_END), JsonLine (JObj MOCK_NO_RESPONSE)]"

text \<open>A record with an empty identifier and a complete response, and one with no identifier.\<close>

definition EMPTY_ID_RECORD :: "(string \<times> json) list" where
  "EMPTY_ID_RECORD = response_record [] ''completed'' JNull
     (INQUIRY_START @ ''Q'' @ INQUIRY_END @ SOLUTION_START @ ''S'' @ SOLUTION_END)"

definition MISSING_ID_RECORD :: "(string \<times> json) list" where
  "MISSING_ID_RECORD =
     [(''id'', JStr ''batch_req_mock_3''), (''response'', JNull),
      (''error'', JObj [(''message'', JStr ''mock error'')])]"

text \<open>
  Two records for one identifier, the second with a response whose output is empty; a
  complete record followed by a record for the same identifier without a response; a stored
  text; and lines that follow a complete record.
\<close>

definition EMPTY_SEGMENT_RECORD :: "(string \<times> json) list" where
  "EMPTY_SEGMENT_RECORD =
     [(''custom_id'', JStr ''a''),
      (''response'', JObj [(''status_code'', JNum 200),
                          (''body'', JObj [(''status'', JStr ''incomplete''), (''output'', JArr [])])])]"

definition cx8_results :: "file_line list" where
  "cx8_results = [JsonLine (JObj (response_record ''a'' ''incomplete'' JNull ''x'')),
                  JsonLine (JObj EMPTY_SEGMENT_RECORD)]"

definition cx9_results :: "file_line list" where
  "cx9_results = [JsonLine (JObj MOCK_COMPLETE),
                  JsonLine (JObj [(''custom_id'', JStr ''example::0''), (''response'', JNull)])]"

definition st_x :: round_state where
  "st_x = \<lparr>combined_text_by_id = [JStr ''a'' \<mapsto> ''x''], example_state_by_id = Map.empty,
           incomplete_ids = []\<rparr>"

definition later_lines :: "file_line list" where
  "later_lines = [JsonLine (JObj MOCK_NO_RESPONSE), BlankLine,
                  JsonLine (JObj (response_record ''example::0'' ''completed'' JNull ''more text''))]"

text \<open>
  The run of \<open>test_run_example_batch_single_round_complete\<close>: two examples, the results
  of round 1 already on disk, no client. \<open>env_failed\<close> has the same round 1, a client,
  and a job of round 2 whose status becomes \<open>failed\<close>. \<open>partial_text\<close> is the text
  stored for the second example after round 1.
\<close>

definition meta0 :: example_meta where
  "meta0 = \<lparr>chapter_title = ''Complex Analysis'', section_title = ''Analytic Functions'',
            ex_index = 0, ex_title = ''Direct Computation'', ex_summary = ''Compute.''\<rparr>"

definition meta1 :: example_meta where
  "meta1 = \<lparr>chapter_title = ''Complex Analysis'', section_title = ''Analytic Functions'',
            ex_index = 1, ex_title = ''Path Independence'', ex_summary = ''Compare.''\<rparr>"

definition mock_specs :: "(string \<times> example_meta) list" where
  "mock_specs = [(''example::0'', meta0), (''example::1'', meta1)]"

definition round1_results :: "file_line list" where
  "round1_results = [JsonLine (JObj MOCK_COMPLETE), JsonLine (JObj MOCK_INCOMPLETE_NO_SOL_END)]"

definition env_single :: "nat \<Rightarrow> round_env" where
  "env_single i =
     (if i = 1 then \<lparr>existing_results = Some round1_results, job_statuses = [], output_file = None\<rparr>
      else \<lparr>existing_results = None, job_statuses = [], output_file = None\<rparr>)"

definition env_failed :: "nat \<Rightarrow> round_env" where
  "env_failed i =
     (if i = 1 then \<lparr>existing_results = Some round1_results, job_statuses = [], output_file = None\<rparr>
      else \<lparr>existing_results = None, job_statuses = [''in_progress'', ''failed''],
             output_file = None\<rparr>)"

definition partial_text :: string where
  "partial_text = INQUIRY_START @ NL @ ''Inquiry...'' @ NL @ INQUIRY_END @ NL @
      SOLUTION_START @ NL @ ''Partial solution, but missing end marker.''"

text \<open>
  A file of five lines and a region over its third line, as in
  \<open>tests/test_latex_fix_and_patch.py\<close>.
\<close>

definition five_lines :: "string list" where
  "five_lines = [''line 1'', ''line 2'', ''bad line 3'', ''line 4'', ''line 5'']"

definition region3 :: region where
  "region3 = \<lparr>rfile = ''themes/ode.tex'', error_line = 3, start_line = 3, end_line = 3,
              snippet_raw = [''bad line 3''], snippet_numbered = ''    3  bad line 3''\<rparr>"

text \<open>
  The logs and project directories of \<open>tests/test_latex_scan_regions.py\<close>; a log whose
  error is at line 50 of a main document of three lines; and a log whose only file-open
  marker stands on the \<open>l.5\<close> line itself.
  \<open>nested_log\<close> is the log of a project in which \<open>themes/a.tex\<close> inputs
  \<open>themes/b.tex\<close>, with one error in each.
\<close>

definition test_log :: "string list" where
  "test_log = ['''', ''(./themes/pde.tex'', ''! Missing $ inserted.'', ''<inserted text> '',
           ''            $'', ''l.20 This is bad math: '' @ [CHR 0x5C] @ ''alpha + 1]'',
           '') (./themes/ode.tex'']"

definition pde_lines :: "string list" where
  "pde_lines = map (\<lambda>i. ''% line '' @ str_nat i) [1..<20] @
               [''This is bad math: '' @ [CHR 0x5C] @ ''alpha + 1]''] @
               map (\<lambda>i. ''% line '' @ str_nat i) [21..<31]"

definition test_fs :: "string \<rightharpoonup> string list" where
  "test_fs = [''themes/pde.tex'' \<mapsto> pde_lines]"

definition short_log :: "string list" where
  "short_log = [''! Undefined control sequence.'', ''l.50 '' @ [CHR 0x5C] @ ''foo'']"

definition short_fs :: "string \<rightharpoonup> string list" where
  "short_fs = [''main.tex'' \<mapsto> [''a'', ''b'', ''c'']]"

definition two_files_log :: "string list" where
  "two_files_log =
     ['''', ''(./themes/pde.tex'', ''! Missing $ inserted.'', ''<inserted text> '',
      ''            $'', ''l.6 pde bad line'', '') (./themes/complex_analysis.tex'',
      ''! Package amsmath: '' @ [CHR 0x5C] @ ''begin{aligned} allowed only in math mode.'',
      ''l.6 ca bad line'', '')'']"

definition two_files_fs :: "string \<rightharpoonup> string list" where
  "two_files_fs =
     [''themes/pde.tex'' \<mapsto>
        replicate 5 ''% pde header'' @ [''pde bad line''] @ replicate 5 ''% pde footer'',
      ''themes/complex_analysis.tex'' \<mapsto>
        replicate 5 ''% ca header'' @ [''ca bad line''] @ replicate 5 ''% ca footer'']"

definition main_only_log :: "string list" where
  "main_only_log = ['''', ''! Bad math environment delimiter.'', ''l.4 main bad line'']"

definition main_only_fs :: "string \<rightharpoonup> string list" where
  "main_only_fs =
     [''main.tex'' \<mapsto> replicate 3 ''% main header'' @ [''main bad line''] @
                         replicate 3 ''% main footer'']"

definition marker_on_error_log :: "string list" where
  "marker_on_error_log =
     [''! Undefined control sequence.'', ''l.5 '' @ [CHR 0x5C] @ ''input (./themes/foo.tex'']"

definition marker_on_error_fs :: "string \<rightharpoonup> string list" where
  "marker_on_error_fs =
     [''main.tex'' \<mapsto> replicate 6 ''main line'', ''themes/foo.tex'' \<mapsto> replicate 6 ''foo line'']"

definition nested_log :: "string list" where
  "nested_log =
     [''(./themes/a.tex'', ''! Missing $ inserted.'', ''l.2 a bad line'',
      ''(./themes/b.tex'', ''! Missing $ inserted.'', ''l.3 b bad line'', ''))'']"

definition nested_fs :: "string \<rightharpoonup> string list" where
  "nested_fs =
     [''themes/a.tex'' \<mapsto> [''a line 1'', ''a bad line'', ''a line 3''],
      ''themes/b.tex'' \<mapsto> [''b line 1'', ''b line 2'', ''b bad line'']]"

section \<open>Stripping and the stored text\<close>

lemma lstrip_id: "t = [] \<or> \<not> py_isspace (hd t) \<Longrightarrow> lstrip t = t"
  by (cases t) (auto simp: lstrip_def)

lemma rstrip_id: "t = [] \<or> \<not> py_isspace (last t) \<Longrightarrow> rstrip t = t"
  by (cases t rule: rev_cases) (auto simp: rstrip_def)

lemma strip_stripped: "stripped t \<Longrightarrow> strip t = t"
  by (auto simp: stripped_def strip_def lstrip_id rstrip_id)

lemma rstrip_append:
  "rstrip (a @ b) = (if list_all py_isspace b then rstrip a else a @ rstrip b)"
  by (auto simp: rstrip_def dropWhile_append list_all_iff)

lemma rstrip_prefix: "prefix (rstrip u) u"
proof -
  have "suffix (dropWhile py_isspace (rev u)) (rev u)"
    by (metis suffix_dropWhile)
  then show ?thesis
    unfolding rstrip_def by (metis rev_rev_ident suffix_to_prefix)
qed

lemma rstrip_last: "rstrip u \<noteq> [] \<Longrightarrow> \<not> py_isspace (last (rstrip u))"
  unfolding rstrip_def by (simp add: last_rev hd_dropWhile)

lemma lstrip_hd: "lstrip s \<noteq> [] \<Longrightarrow> \<not> py_isspace (hd (lstrip s))"
  unfolding lstrip_def by (simp add: hd_dropWhile)

lemma stripped_strip: "stripped (strip s)"
proof (cases "strip s = []")
  case True
  then show ?thesis by (simp add: stripped_def)
next
  case False
  let ?u = "lstrip s"
  from False have ne: "rstrip ?u \<noteq> []" by (simp add: strip_def)
  then have une: "?u \<noteq> []" by (auto simp: rstrip_def)
  have "prefix (rstrip ?u) ?u" by (rule rstrip_prefix)
  with ne have "hd (rstrip ?u) = hd ?u"
    by (metis hd_append2 prefix_def)
  with lstrip_hd[OF une] rstrip_last[OF ne] show ?thesis
    by (simp add: stripped_def strip_def)
qed

lemma stripped_iff: "stripped t \<longleftrightarrow> strip t = t"
  by (metis strip_stripped stripped_strip)

lemma strip_append_stripped:
  assumes "stripped p" "p \<noteq> []"
  shows "strip (p @ x) = p @ rstrip x"
proof -
  from assms have h: "\<not> py_isspace (hd p)" and l: "\<not> py_isspace (last p)"
    by (auto simp: stripped_def)
  have "lstrip (p @ x) = p @ x"
    using h assms(2) by (intro lstrip_id) simp
  moreover have "rstrip (p @ x) = p @ rstrip x"
  proof (cases "list_all py_isspace x")
    case True
    then have "rstrip x = []"
      by (simp add: rstrip_def list_all_iff dropWhile_eq_Nil_conv)
    moreover have "rstrip p = p" using l by (intro rstrip_id) simp
    ultimately show ?thesis using True by (simp add: rstrip_append)
  next
    case False
    then show ?thesis by (simp add: rstrip_append)
  qed
  ultimately show ?thesis by (simp add: strip_def)
qed

lemma combine_None: "stripped seg \<Longrightarrow> combine None seg = seg"
  by (simp add: combine_def strip_stripped)

lemma combine_Some:
  assumes "stripped prev" "stripped seg"
  shows "combine (Some prev) seg =
           (if prev = [] then seg else if seg = [] then prev else prev @ NL @ seg)"
proof -
  have r: "rstrip (NL @ seg) = (if seg = [] then [] else NL @ seg)"
  proof (cases "seg = []")
    case True
    then show ?thesis by (simp add: rstrip_def NL_def py_isspace_def)
  next
    case False
    with assms(2) have "\<not> py_isspace (last (NL @ seg))" by (simp add: stripped_def)
    then have "rstrip (NL @ seg) = NL @ seg" by (intro rstrip_id) simp
    with False show ?thesis by simp
  qed
  show ?thesis
    using assms r by (auto simp: combine_def strip_append_stripped strip_stripped)
qed

lemma combine_prefix:
  "stripped prev \<Longrightarrow> prefix prev (combine (Some prev) seg)"
  by (cases "prev = []") (auto simp: combine_def strip_append_stripped)

lemma sublist_prefix_trans: "sublist m a \<Longrightarrow> prefix a b \<Longrightarrow> sublist m b"
  by (meson prefix_imp_sublist sublist_order.order_trans)

lemma all_markers_prefix: "all_markers a \<Longrightarrow> prefix a b \<Longrightarrow> all_markers b"
  by (auto simp: all_markers_def intro: sublist_prefix_trans)

section \<open>Parsing a results file\<close>

lemma process_lines_append:
  "process_lines st (xs @ ys) =
     (case process_lines st xs of Inl e \<Rightarrow> Inl e | Inr st' \<Rightarrow> process_lines st' ys)"
  by (induction xs arbitrary: st) (auto split: sum.splits)

lemma item_chunk_wf:
  assumes "wf_item item"
  shows "\<exists>c. item_chunk item = Inr c \<and> (case c of None \<Rightarrow> True | Some v \<Rightarrow> is_str v)"
  using assms
  by (cases item) (auto simp: wf_item_def item_chunk_def Let_def split: json.splits if_splits)

lemma content_chunks_wf:
  "list_all wf_item items \<Longrightarrow> \<exists>cs. content_chunks items = Inr cs \<and> list_all is_str cs"
proof (induction items)
  case Nil
  then show ?case by simp
next
  case (Cons item items)
  then obtain cs where cs: "content_chunks items = Inr cs" "list_all is_str cs" by auto
  from Cons.prems obtain c where c: "item_chunk item = Inr c"
    "case c of None \<Rightarrow> True | Some v \<Rightarrow> is_str v"
    using item_chunk_wf by auto
  show ?case using cs c by (auto split: option.splits)
qed

lemma output_chunks_wf:
  "list_all wf_msg msgs \<Longrightarrow> \<exists>cs. output_chunks msgs = Inr cs \<and> list_all is_str cs"
proof (induction msgs)
  case Nil
  then show ?case by simp
next
  case (Cons msg msgs)
  then obtain ds where ds: "output_chunks msgs = Inr ds" "list_all is_str ds" by auto
  from Cons.prems obtain kvs where msg: "msg = JObj kvs"
    by (auto simp: wf_msg_def split: json.splits)
  show ?case
  proof (cases "dict_get kvs ''content'' (JArr [])")
    case (JArr items)
    with Cons.prems msg have "list_all wf_item items" by (simp add: wf_msg_def)
    then obtain cs where "content_chunks items = Inr cs" "list_all is_str cs"
      using content_chunks_wf by blast
    with ds msg JArr show ?thesis by simp
  qed (use ds msg in auto)
qed

lemma str_chunks_ok: "list_all is_str cs \<Longrightarrow> \<exists>ss. str_chunks cs = Inr ss"
proof (induction cs)
  case Nil
  then show ?case by simp
next
  case (Cons c cs)
  then show ?case by (cases c) auto
qed

lemma extract_output_text_wf:
  assumes "wf_body body"
  shows "\<exists>seg. extract_output_text_from_response_obj body = Inr seg"
proof -
  from assms obtain kvs where body: "body = JObj kvs"
    by (auto simp: wf_body_def split: json.splits)
  show ?thesis
  proof (cases "dict_get kvs ''output'' (JArr [])")
    case (JArr msgs)
    with assms body have "list_all wf_msg msgs" by (simp add: wf_body_def)
    then obtain cs where cs: "output_chunks msgs = Inr cs" "list_all is_str cs"
      using output_chunks_wf by blast
    then obtain ss where "str_chunks cs = Inr ss" using str_chunks_ok by blast
    with cs body JArr show ?thesis by (simp add: extract_output_text_from_response_obj_def)
  qed (use body in \<open>auto simp: extract_output_text_from_response_obj_def\<close>)
qed

lemma dict_key_hashable: "is_hashable v \<Longrightarrow> \<exists>k. dict_key v = Inr k"
  by (cases v) auto

lemma process_record_wf:
  assumes "wf_record obj"
  shows "\<exists>st'. process_record st obj = Inr st'"
proof -
  from assms obtain kvs where obj: "obj = JObj kvs"
    by (auto simp: wf_record_def split: json.splits)
  let ?cid = "dict_get kvs ''custom_id'' JNull"
  let ?resp = "dict_get kvs ''response'' JNull"
  show ?thesis
  proof (cases "truthy ?cid")
    case False
    then show ?thesis by (simp add: obj process_record_def)
  next
    case True
    with assms obj have h: "is_hashable ?cid"
      by (auto simp: wf_record_def split: if_splits)
    then obtain k where k: "dict_key ?cid = Inr k" using dict_key_hashable by blast
    show ?thesis
    proof (cases "truthy ?resp")
      case False
      with True k show ?thesis by (simp add: obj process_record_def mark_no_response_def)
    next
      case resp: True
      with True h assms obj obtain r where r: "?resp = JObj r"
        and wb: "wf_body (py_or (dict_get r ''body'' JNull) (JObj []))"
        by (auto simp: wf_record_def split: if_splits json.splits)
      from wb obtain bk where bk: "py_or (dict_get r ''body'' JNull) (JObj []) = JObj bk"
        by (auto simp: wf_body_def split: json.splits)
      from wb obtain seg where
        "extract_output_text_from_response_obj (py_or (dict_get r ''body'' JNull) (JObj [])) = Inr seg"
        using extract_output_text_wf by blast
      with True resp r k bk show ?thesis
        by (simp add: obj process_record_def process_response_def store_segment_def Let_def)
    qed
  qed
qed

lemma process_lines_wf:
  "list_all wf_line ls \<Longrightarrow> \<exists>st'. process_lines st ls = Inr st'"
proof (induction ls arbitrary: st)
  case Nil
  then show ?case by simp
next
  case (Cons l ls)
  from Cons.prems have "\<exists>st1. process_line st l = Inr st1"
    using process_record_wf by (cases l) (auto simp: wf_line_def process_line_def)
  then obtain st1 where "process_line st l = Inr st1" by blast
  with Cons show ?case by auto
qed



lemma process_record_no_response:
  assumes "truthy (dict_get kvs ''custom_id'' JNull)"
    and "dict_key (dict_get kvs ''custom_id'' JNull) = Inr k"
    and "\<not> truthy (dict_get kvs ''response'' JNull)"
  shows "process_record st (JObj kvs) =
           Inr (st\<lparr>example_state_by_id := (example_state_by_id st)(k \<mapsto>
                     \<lparr>completed = False,
                      incomplete_reason = JObj [(''reason'', JStr ''no_response''),
                                                (''error'', dict_get kvs ''error'' JNull)],
                      status_code = JNull\<rparr>),
                   incomplete_ids := incomplete_ids st @ [dict_get kvs ''custom_id'' JNull]\<rparr>)"
  using assms by (simp add: process_record_def mark_no_response_def)

lemma process_record_response:
  assumes "truthy (dict_get kvs ''custom_id'' JNull)"
    and "truthy (dict_get kvs ''response'' JNull)"
    and "process_record st (JObj kvs) = Inr st'"
  shows "\<exists>k r bk seg.
           dict_key (dict_get kvs ''custom_id'' JNull) = Inr k \<and>
           dict_get kvs ''response'' JNull = JObj r \<and>
           py_or (dict_get r ''body'' JNull) (JObj []) = JObj bk \<and>
           extract_output_text_from_response_obj (JObj bk) = Inr seg \<and>
           store_segment st (dict_get kvs ''custom_id'' JNull) (dict_get r ''status_code'' (JNum 0))
             (dict_get bk ''incomplete_details'' JNull) seg = Inr st'"
proof -
  from assms obtain r where r: "dict_get kvs ''response'' JNull = JObj r"
    by (cases "dict_get kvs ''response'' JNull")
       (auto simp: process_record_def process_response_def)
  from assms r obtain bk where bk: "py_or (dict_get r ''body'' JNull) (JObj []) = JObj bk"
    by (cases "py_or (dict_get r ''body'' JNull) (JObj [])")
       (auto simp: process_record_def process_response_def)
  from assms r bk show ?thesis
    by (auto simp: process_record_def process_response_def store_segment_def
        split: sum.splits)
qed


lemma store_segment_result:
  assumes "store_segment st cid status details seg = Inr st'"
    and "dict_key cid = Inr k"
  shows "combined_text_by_id st' = (combined_text_by_id st)(k \<mapsto> combine (combined_text_by_id st k) seg)"
    and "example_state_by_id st' k =
          Some (if all_markers (combine (combined_text_by_id st k) seg)
                then \<lparr>completed = True, incomplete_reason = JNull, status_code = status\<rparr>
                else \<lparr>completed = False,
                      incomplete_reason = py_or details (JObj [(''reason'', JStr ''markers_missing'')]),
                      status_code = status\<rparr>)"
    and "all_markers (combine (combined_text_by_id st k) seg) \<or> cid \<in> set (incomplete_ids st')"
    and "\<And>k'. k' \<noteq> k \<Longrightarrow> example_state_by_id st' k' = example_state_by_id st k'"
  using assms by (auto simp: store_segment_def Let_def split: if_splits)




text \<open>The three tests of \<open>parse_round_results\<close> in \<open>tests/test_openai_batch.py\<close>, on one file.\<close>

lemma parse_round_results_mock_results:
  "(case parse_round_results mock_results Map.empty Map.empty of
      Inl e \<Rightarrow> False
    | Inr st \<Rightarrow>
        incomplete_ids st = [JStr ''example::1'', JStr ''example::2''] \<and>
        example_state_by_id st (JStr ''example::0'') =
          Some \<lparr>completed = True, incomplete_reason = JNull, status_code = JNum 200\<rparr> \<and>
        example_state_by_id st (JStr ''example::1'') =
          Some \<lparr>completed = False,
                incomplete_reason = JObj [(''reason'', JStr ''max_output_tokens'')],
                status_code = JNum 200\<rparr> \<and>
        example_state_by_id st (JStr ''example::2'') =
          Some \<lparr>completed = False,
                incomplete_reason = JObj [(''reason'', JStr ''no_response''),
                                          (''error'', JObj [(''message'', JStr ''mock error'')])],
                status_code = JNull\<rparr> \<and>
        combined_text_by_id st (JStr ''example::2'') = None)"
  by code_simp

text \<open>
  Claim C10. A record whose \<open>custom_id\<close> is missing or empty (any value that Python takes
  for false: a missing field reads as \<open>None\<close>) leaves the two dicts and the list of
  incomplete identifiers as they are, whatever else it carries; the result of parsing a file
  is the result of parsing the file without that line.
\<close>

theorem record_without_custom_id_skipped:
  assumes "\<not> truthy (dict_get kvs ''custom_id'' JNull)"
  shows "process_record st (JObj kvs) = Inr st \<and>
         parse_round_results (pre @ JsonLine (JObj kvs) # post) ct es =
         parse_round_results (pre @ post) ct es"
  using assms
  by (auto simp: process_record_def parse_round_results_def process_lines_append process_line_def
      split: sum.splits)

theorem record_without_custom_id_skipped_witness:
  "\<not> truthy (dict_get EMPTY_ID_RECORD ''custom_id'' JNull) \<and>
   \<not> truthy (dict_get MISSING_ID_RECORD ''custom_id'' JNull) \<and>
   parse_round_results
     ([JsonLine (JObj MOCK_COMPLETE)] @
      JsonLine (JObj EMPTY_ID_RECORD) # [JsonLine (JObj MISSING_ID_RECORD)])
     Map.empty Map.empty =
   parse_round_results [JsonLine (JObj MOCK_COMPLETE)] Map.empty Map.empty"
proof -
  have h1: "\<not> truthy (dict_get EMPTY_ID_RECORD ''custom_id'' JNull)"
    by code_simp
  have h2: "\<not> truthy (dict_get MISSING_ID_RECORD ''custom_id'' JNull)"
    by code_simp
  have "parse_round_results
     ([JsonLine (JObj MOCK_COMPLETE)] @
      JsonLine (JObj EMPTY_ID_RECORD) # [JsonLine (JObj MISSING_ID_RECORD)])
     Map.empty Map.empty =
     parse_round_results ([JsonLine (JObj MOCK_COMPLETE)] @ [JsonLine (JObj MISSING_ID_RECORD)])
     Map.empty Map.empty"
    using record_without_custom_id_skipped[OF h1] by blast
  also have "\<dots> = parse_round_results ([JsonLine (JObj MOCK_COMPLETE)] @ []) Map.empty Map.empty"
    using record_without_custom_id_skipped[OF h2, of _ "[JsonLine (JObj MOCK_COMPLETE)]" "[]"]
    by blast
  finally show ?thesis using h1 h2 by simp
qed


section \<open>The stored text across records\<close>

lemma store_inv_empty: "store_inv Map.empty Map.empty"
  by (simp add: store_inv_def)

lemma stripped_combine: "stripped (combine stored seg)"
  by (simp add: combine_def Let_def stripped_strip)

lemma store_segment_inv:
  assumes "store_segment st cid status details seg = Inr st'"
    and "store_inv (combined_text_by_id st) (example_state_by_id st)"
  shows "store_inv (combined_text_by_id st') (example_state_by_id st')"
  using assms
  by (auto simp: store_segment_def Let_def store_inv_def stripped_combine
      split: sum.splits if_splits)

lemma mark_no_response_inv:
  assumes "mark_no_response st cid err = Inr st'"
    and "store_inv (combined_text_by_id st) (example_state_by_id st)"
  shows "store_inv (combined_text_by_id st') (example_state_by_id st')"
  using assms
  by (auto simp: mark_no_response_def store_inv_def split: sum.splits if_splits)

lemma process_record_inv:
  assumes "process_record st obj = Inr st'"
    and "store_inv (combined_text_by_id st) (example_state_by_id st)"
  shows "store_inv (combined_text_by_id st') (example_state_by_id st')"
  using assms
  by (auto simp: process_record_def process_response_def
      split: sum.splits if_splits dest: store_segment_inv mark_no_response_inv)

lemma process_line_inv:
  assumes "process_line st l = Inr st'"
    and "store_inv (combined_text_by_id st) (example_state_by_id st)"
  shows "store_inv (combined_text_by_id st') (example_state_by_id st')"
  using assms by (cases l) (auto simp: process_line_def dest: process_record_inv)

lemma process_lines_inv:
  assumes "process_lines st ls = Inr st'"
    and "store_inv (combined_text_by_id st) (example_state_by_id st)"
  shows "store_inv (combined_text_by_id st') (example_state_by_id st')"
  using assms
proof (induction ls arbitrary: st)
  case Nil
  then show ?case by simp
next
  case (Cons l ls)
  then obtain st1 where 1: "process_line st l = Inr st1" and 2: "process_lines st1 ls = Inr st'"
    by (auto split: sum.splits)
  from process_line_inv[OF 1 Cons.prems(2)] Cons.IH[OF 2] show ?case by simp
qed

lemma parse_round_results_inv:
  assumes "parse_round_results results ct es = Inr st'" and "store_inv ct es"
  shows "store_inv (combined_text_by_id st') (example_state_by_id st')"
  using process_lines_inv[of _ results st'] assms by (simp add: parse_round_results_def)

lemma stored_text_stripped:
  "store_inv ct es \<Longrightarrow> stripped (stored_text ct k)"
  by (auto simp: store_inv_def stored_text_def stripped_def split: option.splits)

lemma combine_stored_stripped:
  assumes "stripped (stored_text ct k)" "stripped seg"
  shows "combine (ct k) seg =
           (if stored_text ct k = [] then seg
            else if seg = [] then stored_text ct k
            else stored_text ct k @ NL @ seg)"
proof (cases "ct k")
  case None
  with assms show ?thesis by (simp add: stored_text_def combine_None)
next
  case (Some t)
  with assms show ?thesis by (simp add: stored_text_def combine_Some)
qed

lemma stripped_Nil: "stripped []"
  by (simp add: stripped_def)

lemma extract_output_text_stripped:
  "extract_output_text_from_response_obj body = Inr seg \<Longrightarrow> stripped seg"
  by (auto simp: extract_output_text_from_response_obj_def stripped_strip stripped_Nil
      split: sum.splits json.splits)

lemma store_segment_prefix:
  assumes ss: "store_segment st cid status details seg = Inr st'"
    and inv: "store_inv (combined_text_by_id st) (example_state_by_id st)"
  shows "prefix (stored_text (combined_text_by_id st) k') (stored_text (combined_text_by_id st') k')"
proof -
  from ss obtain k where k: "dict_key cid = Inr k"
    by (auto simp: store_segment_def split: sum.splits)
  note res = store_segment_result[OF ss k]
  show ?thesis
  proof (cases "k' = k")
    case False
    with res(1) show ?thesis by (simp add: stored_text_def)
  next
    case True
    show ?thesis
    proof (cases "combined_text_by_id st k")
      case None
      then show ?thesis by (simp add: True stored_text_def)
    next
      case (Some t)
      with inv have "stripped t" by (auto simp: store_inv_def)
      then have "prefix t (combine (Some t) seg)" by (rule combine_prefix)
      with Some res(1) show ?thesis by (simp add: True stored_text_def)
    qed
  qed
qed

lemma process_record_prefix:
  assumes "process_record st obj = Inr st'"
    and "store_inv (combined_text_by_id st) (example_state_by_id st)"
  shows "prefix (stored_text (combined_text_by_id st) k) (stored_text (combined_text_by_id st') k)"
  using assms
  by (auto simp: process_record_def process_response_def mark_no_response_def
      split: sum.splits if_splits dest: store_segment_prefix)

lemma process_lines_prefix:
  assumes "process_lines st ls = Inr st'"
    and "store_inv (combined_text_by_id st) (example_state_by_id st)"
  shows "prefix (stored_text (combined_text_by_id st) k) (stored_text (combined_text_by_id st') k)"
  using assms
proof (induction ls arbitrary: st)
  case Nil
  then show ?case by simp
next
  case (Cons l ls)
  then obtain st1 where 1: "process_line st l = Inr st1" and 2: "process_lines st1 ls = Inr st'"
    by (auto split: sum.splits)
  from 1 Cons.prems(2)
  have p: "prefix (stored_text (combined_text_by_id st) k) (stored_text (combined_text_by_id st1) k)"
    by (cases l) (auto simp: process_line_def dest: process_record_prefix)
  from process_line_inv[OF 1 Cons.prems(2)] Cons.IH[OF 2] p show ?case
    by (meson prefix_order.trans)
qed

text \<open>
  Claim C8, amended. In a state reached from the empty dicts (stored texts are stripped),
  a record that has an identifier and carries a response changes the stored text of its
  identifier only: the new text is the segment when nothing was stored, the old text
  unchanged when the segment is empty, and otherwise the old text, a newline and the segment.
  Every stored text is a prefix of the text stored afterwards, and the new state is again
  such a state.
\<close>

theorem combined_text_grows:
  assumes inv: "store_inv (combined_text_by_id st) (example_state_by_id st)"
    and cid: "truthy (dict_get kvs ''custom_id'' JNull)"
    and resp: "truthy (dict_get kvs ''response'' JNull)"
    and run: "process_record st (JObj kvs) = Inr st'"
  shows "\<exists>k r bk seg.
     dict_key (dict_get kvs ''custom_id'' JNull) = Inr k \<and>
     dict_get kvs ''response'' JNull = JObj r \<and>
     py_or (dict_get r ''body'' JNull) (JObj []) = JObj bk \<and>
     extract_output_text_from_response_obj (JObj bk) = Inr seg \<and>
     combined_text_by_id st' k =
       Some (if stored_text (combined_text_by_id st) k = [] then seg
             else if seg = [] then stored_text (combined_text_by_id st) k
             else stored_text (combined_text_by_id st) k @ NL @ seg) \<and>
     (\<forall>k'. k' \<noteq> k \<longrightarrow> combined_text_by_id st' k' = combined_text_by_id st k') \<and>
     (\<forall>k'. prefix (stored_text (combined_text_by_id st) k') (stored_text (combined_text_by_id st') k')) \<and>
     store_inv (combined_text_by_id st') (example_state_by_id st')"
proof -
  from process_record_response[OF cid resp run] obtain k r bk seg where
    k: "dict_key (dict_get kvs ''custom_id'' JNull) = Inr k"
    and r: "dict_get kvs ''response'' JNull = JObj r"
    and bk: "py_or (dict_get r ''body'' JNull) (JObj []) = JObj bk"
    and seg: "extract_output_text_from_response_obj (JObj bk) = Inr seg"
    and ss: "store_segment st (dict_get kvs ''custom_id'' JNull) (dict_get r ''status_code'' (JNum 0))
             (dict_get bk ''incomplete_details'' JNull) seg = Inr st'"
    by blast
  note res = store_segment_result[OF ss k]
  have "combine (combined_text_by_id st k) seg =
          (if stored_text (combined_text_by_id st) k = [] then seg
           else if seg = [] then stored_text (combined_text_by_id st) k
           else stored_text (combined_text_by_id st) k @ NL @ seg)"
    using stored_text_stripped[OF inv] extract_output_text_stripped[OF seg]
    by (rule combine_stored_stripped)
  with res(1) have 1: "combined_text_by_id st' k =
       Some (if stored_text (combined_text_by_id st) k = [] then seg
             else if seg = [] then stored_text (combined_text_by_id st) k
             else stored_text (combined_text_by_id st) k @ NL @ seg)"
    by simp
  from res(1) have 2: "\<forall>k'. k' \<noteq> k \<longrightarrow> combined_text_by_id st' k' = combined_text_by_id st k'"
    by simp
  from process_record_prefix[OF run inv]
  have 3: "\<forall>k'. prefix (stored_text (combined_text_by_id st) k') (stored_text (combined_text_by_id st') k')"
    by blast
  from process_record_inv[OF run inv] k r bk seg 1 2 3 show ?thesis by blast
qed

lemma completed_has_markers:
  assumes "store_inv ct es" "es k = Some s" "completed s"
  shows "\<exists>t. ct k = Some t \<and> all_markers t \<and> stripped t"
proof -
  from assms obtain t where t: "ct k = Some t" "all_markers t"
    unfolding store_inv_def by blast
  from assms(1) t(1) have "stripped t"
    unfolding store_inv_def by blast
  with t show ?thesis by blast
qed

lemma process_line_keeps_completed:
  assumes inv: "store_inv (combined_text_by_id st) (example_state_by_id st)"
    and s: "example_state_by_id st k = Some s" "completed s"
    and run: "process_line st l = Inr st'"
    and nr: "\<not> resets k l"
  shows "\<exists>s'. example_state_by_id st' k = Some s' \<and> completed s'"
proof (cases l)
  case BlankLine
  with run s show ?thesis by (simp add: process_line_def)
next
  case NotJson
  with run show ?thesis by (simp add: process_line_def)
next
  case (JsonLine obj)
  with run have pr: "process_record st obj = Inr st'" by (simp add: process_line_def)
  then obtain kvs where obj: "obj = JObj kvs"
    by (cases obj) (auto simp: process_record_def)
  let ?cid = "dict_get kvs ''custom_id'' JNull"
  show ?thesis
  proof (cases "truthy ?cid")
    case False
    with pr obj s show ?thesis by (simp add: process_record_def)
  next
    case cid: True
    show ?thesis
    proof (cases "truthy (dict_get kvs ''response'' JNull)")
      case False
      from pr obj cid False obtain k0 where k0: "dict_key ?cid = Inr k0"
        by (auto simp: process_record_def mark_no_response_def split: sum.splits)
      with nr JsonLine obj cid False have "k0 \<noteq> k" by (auto simp: resets_def)
      with process_record_no_response[OF cid k0 False, of st] pr obj s show ?thesis by auto
    next
      case True
      from process_record_response[OF cid True pr[unfolded obj]] obtain k0 r bk seg where
        k0: "dict_key ?cid = Inr k0"
        and ss: "store_segment st ?cid (dict_get r ''status_code'' (JNum 0))
             (dict_get bk ''incomplete_details'' JNull) seg = Inr st'"
        by blast
      note res = store_segment_result[OF ss k0]
      show ?thesis
      proof (cases "k0 = k")
        case False
        with res(4)[of k] s show ?thesis by simp
      next
        case True
        from completed_has_markers[OF inv s] obtain t where
          t: "combined_text_by_id st k = Some t" "all_markers t" "stripped t" by blast
        from t(3) have "prefix t (combine (Some t) seg)" by (rule combine_prefix)
        with t(2) have "all_markers (combine (Some t) seg)" by (rule all_markers_prefix)
        with res(2) t(1) True show ?thesis by simp
      qed
    qed
  qed
qed


theorem combined_text_grows_witness:
  "store_inv (combined_text_by_id st_x) (example_state_by_id st_x) \<and>
   truthy (dict_get (response_record ''a'' ''incomplete'' JNull ''y'') ''custom_id'' JNull) \<and>
   truthy (dict_get (response_record ''a'' ''incomplete'' JNull ''y'') ''response'' JNull) \<and>
   (\<exists>st'. process_record st_x (JObj (response_record ''a'' ''incomplete'' JNull ''y'')) = Inr st' \<and>
      combined_text_by_id st' (JStr ''a'') = Some (''x'' @ NL @ ''y'') \<and>
      store_inv (combined_text_by_id st') (example_state_by_id st'))"
proof -
  let ?kvs = "response_record ''a'' ''incomplete'' JNull ''y''"
  have inv: "store_inv (combined_text_by_id st_x) (example_state_by_id st_x)"
    by (simp add: st_x_def store_inv_def stripped_def py_isspace_def)
  have cid: "truthy (dict_get ?kvs ''custom_id'' JNull)" by code_simp
  have resp: "truthy (dict_get ?kvs ''response'' JNull)" by code_simp
  have "wf_record (JObj ?kvs)" by code_simp
  then obtain st' where run: "process_record st_x (JObj ?kvs) = Inr st'"
    using process_record_wf by blast
  have tval: "combined_text_by_id (projr (process_record st_x (JObj ?kvs))) (JStr ''a'') = Some (''x'' @ NL @ ''y'')"
    by code_simp
  from combined_text_grows[OF inv cid resp run]
  have "store_inv (combined_text_by_id st') (example_state_by_id st')" by blast
  with inv cid resp run tval show ?thesis by auto
qed

text \<open>
  Claim C8 as stated fails on a response with an empty segment: the text \<open>x\<close> stored
  for the identifier stays \<open>x\<close>, with no newline appended.
\<close>

theorem combined_text_grows_counterexample:
  "\<not> isl (parse_round_results cx8_results Map.empty Map.empty) \<and>
   combined_text_by_id (projr (parse_round_results (take 1 cx8_results) Map.empty Map.empty))
     (JStr ''a'') = Some ''x'' \<and>
   truthy (dict_get EMPTY_SEGMENT_RECORD ''response'' JNull) \<and>
   extract_output_text_from_response_obj
     (JObj [(''status'', JStr ''incomplete''), (''output'', JArr [])]) = Inr [] \<and>
   combined_text_by_id (projr (parse_round_results cx8_results Map.empty Map.empty))
     (JStr ''a'') = Some ''x'' \<and>
   ''x'' \<noteq> ''x'' @ NL @ []"
  by code_simp

lemma process_lines_keeps_completed:
  assumes inv: "store_inv (combined_text_by_id st) (example_state_by_id st)"
    and s: "example_state_by_id st k = Some s" "completed s"
    and run: "process_lines st ls = Inr st'"
    and nr: "list_all (\<lambda>l. \<not> resets k l) ls"
  shows "\<exists>s'. example_state_by_id st' k = Some s' \<and> completed s'"
  using assms
proof (induction ls arbitrary: st s)
  case Nil
  then show ?case by simp
next
  case (Cons l ls)
  then obtain st1 where 1: "process_line st l = Inr st1" and 2: "process_lines st1 ls = Inr st'"
    by (auto split: sum.splits)
  from Cons.prems have "\<not> resets k l" "list_all (\<lambda>l. \<not> resets k l) ls" by simp_all
  from process_line_keeps_completed[OF Cons.prems(1,2,3) 1 this(1)] obtain s1 where
    s1: "example_state_by_id st1 k = Some s1" "completed s1" by blast
  from Cons.IH[OF process_line_inv[OF 1 Cons.prems(1)] s1 2 \<open>list_all (\<lambda>l. \<not> resets k l) ls\<close>]
  show ?case .
qed

lemma process_line_resets:
  assumes "resets k l" "process_line st l = Inr st'"
  shows "\<exists>s' err. example_state_by_id st' k = Some s' \<and> \<not> completed s' \<and>
           incomplete_reason s' = JObj [(''reason'', JStr ''no_response''), (''error'', err)] \<and>
           status_code s' = JNull"
proof -
  from assms(1) obtain kvs where l: "l = JsonLine (JObj kvs)"
    and cid: "truthy (dict_get kvs ''custom_id'' JNull)"
    and k: "dict_key (dict_get kvs ''custom_id'' JNull) = Inr k"
    and resp: "\<not> truthy (dict_get kvs ''response'' JNull)"
    by (auto simp: resets_def split: file_line.splits json.splits)
  from process_record_no_response[OF cid k resp, of st] assms(2) l show ?thesis
    by (auto simp: process_line_def)
qed

text \<open>
  Claim C9, amended. In a state reached from the empty dicts, an example that is marked
  completed stays marked completed through every sequence of lines that holds no record for
  its identifier without a response; a record for its identifier without a response marks it
  not completed, with the reason \<open>no_response\<close> and no status code.
\<close>

theorem completed_is_kept:
  assumes inv: "store_inv (combined_text_by_id st) (example_state_by_id st)"
    and s: "example_state_by_id st k = Some s" "completed s"
  shows "(\<forall>ls st'. process_lines st ls = Inr st' \<and> list_all (\<lambda>l. \<not> resets k l) ls \<longrightarrow>
            (\<exists>s'. example_state_by_id st' k = Some s' \<and> completed s')) \<and>
         (\<forall>l st'. process_line st l = Inr st' \<and> resets k l \<longrightarrow>
            (\<exists>s' err. example_state_by_id st' k = Some s' \<and> \<not> completed s' \<and>
               incomplete_reason s' = JObj [(''reason'', JStr ''no_response''), (''error'', err)] \<and>
               status_code s' = JNull))"
proof (intro conjI allI impI)
  fix ls st'
  assume "process_lines st ls = Inr st' \<and> list_all (\<lambda>l. \<not> resets k l) ls"
  then show "\<exists>s'. example_state_by_id st' k = Some s' \<and> completed s'"
    using process_lines_keeps_completed[OF inv s] by blast
next
  fix l st'
  assume "process_line st l = Inr st' \<and> resets k l"
  then show "\<exists>s' err. example_state_by_id st' k = Some s' \<and> \<not> completed s' \<and>
               incomplete_reason s' = JObj [(''reason'', JStr ''no_response''), (''error'', err)] \<and>
               status_code s' = JNull"
    using process_line_resets by blast
qed

theorem completed_is_kept_witness:
  "\<exists>st s st'.
     store_inv (combined_text_by_id st) (example_state_by_id st) \<and>
     example_state_by_id st (JStr ''example::0'') = Some s \<and> completed s \<and>
     process_lines st later_lines = Inr st' \<and>
     list_all (\<lambda>l. \<not> resets (JStr ''example::0'') l) later_lines \<and>
     (\<exists>s'. example_state_by_id st' (JStr ''example::0'') = Some s' \<and> completed s')"
proof -
  have "list_all wf_line [JsonLine (JObj MOCK_COMPLETE)]" by code_simp
  then obtain st where st: "parse_round_results [JsonLine (JObj MOCK_COMPLETE)] Map.empty Map.empty = Inr st"
    unfolding parse_round_results_def using process_lines_wf by blast
  have inv: "store_inv (combined_text_by_id st) (example_state_by_id st)"
    using parse_round_results_inv[OF st store_inv_empty] .
  have "example_state_by_id (projr (parse_round_results [JsonLine (JObj MOCK_COMPLETE)] Map.empty Map.empty))
          (JStr ''example::0'') =
        Some \<lparr>completed = True, incomplete_reason = JNull, status_code = JNum 200\<rparr>"
    by code_simp
  with st have s: "example_state_by_id st (JStr ''example::0'') =
        Some \<lparr>completed = True, incomplete_reason = JNull, status_code = JNum 200\<rparr>"
    "completed \<lparr>completed = True, incomplete_reason = JNull, status_code = JNum 200\<rparr>"
    by simp_all
  have "list_all wf_line later_lines" by code_simp
  then obtain st' where run: "process_lines st later_lines = Inr st'"
    using process_lines_wf by blast
  have nr: "list_all (\<lambda>l. \<not> resets (JStr ''example::0'') l) later_lines" by code_simp
  from completed_is_kept[OF inv s] run nr
  have "\<exists>s'. example_state_by_id st' (JStr ''example::0'') = Some s' \<and> completed s'"
    by blast
  with inv s run nr show ?thesis by blast
qed

text \<open>
  Claim C9 as stated fails in one results file: the first record completes the example and
  the second, for the same identifier and without a response, marks it not completed.
\<close>

theorem completed_is_kept_counterexample:
  "\<not> isl (parse_round_results cx9_results Map.empty Map.empty) \<and>
   map_option completed
     (example_state_by_id (projr (parse_round_results (take 1 cx9_results) Map.empty Map.empty))
        (JStr ''example::0'')) = Some True \<and>
   map_option completed
     (example_state_by_id (projr (parse_round_results cx9_results Map.empty Map.empty))
        (JStr ''example::0'')) = Some False"
  by code_simp


section \<open>The final outputs\<close>

lemma str_index_None: "str_index s p = None \<longleftrightarrow> \<not> sublist p s"
  by (induction s) (auto simp: sublist_Cons_right)

lemma str_index_Some:
  "str_index s p = Some a \<Longrightarrow> a \<le> length s \<and> prefix p (drop a s)"
  by (induction s arbitrary: a) (auto split: if_splits)

lemma str_index_first:
  "\<not> sublist p (a @ butlast p) \<Longrightarrow> p \<noteq> [] \<Longrightarrow> str_index (a @ p @ b) p = Some (length a)"
proof (induction a)
  case Nil
  then show ?case by (cases p) auto
next
  case (Cons x a)
  have "\<not> prefix p (x # a @ p @ b)"
  proof
    assume "prefix p (x # a @ p @ b)"
    then have "prefix p ((x # a) @ p @ b)" by simp
    moreover have "length p \<le> length ((x # a) @ butlast p)" by simp
    moreover have "prefix ((x # a) @ butlast p) ((x # a) @ p @ b)"
      by (metis append_butlast_last_id Cons.prems(2) append.assoc prefixI same_prefix_prefix)
    ultimately have "prefix p ((x # a) @ butlast p)"
      by (metis prefix_length_prefix)
    then have "sublist p ((x # a) @ butlast p)" by (rule prefix_imp_sublist)
    with Cons.prems(1) show False by simp
  qed
  moreover from Cons.prems(1) have "\<not> sublist p (a @ butlast p)"
    by (simp add: sublist_Cons_right)
  ultimately show ?case using Cons by simp
qed

lemma extract_block_no_start:
  "\<not> sublist sm t \<Longrightarrow> extract_block t sm em = []"
  by (simp add: extract_block_def str_index_None[symmetric])

lemma extract_block_no_end:
  assumes "\<not> sublist sm (a @ butlast sm)" "\<not> sublist em b"
  shows "extract_block (a @ sm @ b) sm em = []"
proof (cases "sm = []")
  case True
  with assms show ?thesis by simp
next
  case False
  with assms(1) have "str_index (a @ sm @ b) sm = Some (length a)" by (simp add: str_index_first)
  moreover from assms(2) have "str_index b em = None" by (simp add: str_index_None)
  ultimately show ?thesis by (simp add: extract_block_def)
qed

lemma extract_block_between:
  assumes "\<not> sublist sm (a @ butlast sm)" "\<not> sublist em (b @ butlast em)"
  shows "extract_block (a @ sm @ b @ em @ d) sm em = strip b"
proof -
  from assms have ne: "sm \<noteq> []" "em \<noteq> []" by auto
  with assms(1) have "str_index (a @ sm @ (b @ em @ d)) sm = Some (length a)"
    by (intro str_index_first)
  moreover from assms(2) ne have "str_index (b @ em @ d) em = Some (length b)"
    by (intro str_index_first)
  ultimately show ?thesis by (simp add: extract_block_def)
qed

lemma dropWhile_Nil_all: "dropWhile py_isspace x = [] \<longleftrightarrow> list_all py_isspace x"
  by (simp add: dropWhile_eq_Nil_conv list_all_iff)

lemma strip_Nil_iff: "strip x = [] \<longleftrightarrow> list_all py_isspace x"
proof
  assume "strip x = []"
  then have "dropWhile py_isspace (rev (dropWhile py_isspace x)) = []"
    by (simp add: strip_def rstrip_def lstrip_def)
  then have a: "\<forall>y \<in> set (dropWhile py_isspace x). py_isspace y"
    by (simp only: dropWhile_eq_Nil_conv set_rev)
  have "dropWhile py_isspace x = []"
  proof (rule ccontr)
    assume ne: "dropWhile py_isspace x \<noteq> []"
    then have "\<not> py_isspace (hd (dropWhile py_isspace x))" by (rule hd_dropWhile)
    with a ne show False by (meson hd_in_set)
  qed
  then show "list_all py_isspace x" by (simp only: dropWhile_Nil_all)
next
  assume "list_all py_isspace x"
  then have "dropWhile py_isspace x = []" by (simp only: dropWhile_Nil_all)
  then show "strip x = []"
    unfolding strip_def rstrip_def lstrip_def by (simp del: dropWhile_eq_Nil_conv)
qed

lemma length_strip_le: "length (strip x) \<le> length x"
proof -
  have "length (rstrip (lstrip x)) \<le> length (lstrip x)"
    by (metis rstrip_prefix prefix_length_le)
  also have "\<dots> \<le> length x"
    by (simp add: lstrip_def length_dropWhile_le)
  finally show ?thesis by (simp add: strip_def)
qed

lemma extract_block_shorter:
  assumes "sm \<noteq> []" "t \<noteq> []"
  shows "length (extract_block t sm em) < length t"
proof (cases "str_index t sm")
  case None
  with assms show ?thesis by (simp add: extract_block_def)
next
  case (Some a)
  show ?thesis
  proof (cases "str_index (drop (a + length sm) t) em")
    case None
    with Some assms show ?thesis by (simp add: extract_block_def)
  next
    case (Some b)
    have "length (strip (take b (drop (a + length sm) t))) \<le> length (take b (drop (a + length sm) t))"
      by (rule length_strip_le)
    also have "\<dots> \<le> length t - (a + length sm)" by simp
    also have "\<dots> < length t" using assms by (cases sm) auto
    finally show ?thesis using Some \<open>str_index t sm = Some a\<close> by (simp add: extract_block_def)
  qed
qed

lemma build_outputs_other:
  "key \<notin> set (map (\<lambda>(cid, meta). output_key_of meta) specs) \<Longrightarrow>
   build_outputs specs ct outs key = outs key"
  by (induction specs arbitrary: outs) (auto simp: Let_def)

lemma build_outputs_lookup:
  assumes "(cid, meta) \<in> set specs"
    and "distinct (map (\<lambda>(cid, meta). output_key_of meta) specs)"
    and "strip (stored_text ct (JStr cid)) \<noteq> []"
  shows "build_outputs specs ct outs (output_key_of meta) =
           Some (example_output_of meta (strip (stored_text ct (JStr cid))))"
  using assms
proof (induction specs arbitrary: outs)
  case Nil
  then show ?case by simp
next
  case (Cons p specs)
  obtain cid' meta' where p: "p = (cid', meta')" by (cases p)
  show ?case
  proof (cases "(cid, meta) = (cid', meta')")
    case True
    from Cons.prems(2) p True
    have "output_key_of meta \<notin> set (map (\<lambda>(cid, meta). output_key_of meta) specs)" by simp
    then show ?thesis
      using Cons.prems(3) p True by (simp add: Let_def build_outputs_other)
  next
    case False
    with Cons.prems(1) p have "(cid, meta) \<in> set specs" by auto
    moreover from Cons.prems(2) have "distinct (map (\<lambda>(cid, meta). output_key_of meta) specs)"
      by simp
    ultimately show ?thesis
      using Cons.IH Cons.prems(3) p by (simp add: Let_def)
  qed
qed

lemma run_round_inv:
  assumes "store_inv ct es"
  shows "run_round specs client env i ids ct es = NextRound ids' ct' es' \<Longrightarrow> store_inv ct' es'"
    and "run_round specs client env i ids ct es = Stop (Inr (Finished ct' es')) \<Longrightarrow> store_inv ct' es'"
  using assms
  by (auto simp: run_round_def split: if_splits sum.splits option.splits fetched.splits
      dest: parse_round_results_inv)

lemma round_loop_inv:
  assumes "round_loop specs client env i n ids ct es = Some (Inr (Finished ct' es'))"
    and "store_inv ct es"
  shows "store_inv ct' es'"
  using assms
proof (induction n arbitrary: i ids ct es)
  case 0
  then show ?case by simp
next
  case (Suc n)
  show ?case
  proof (cases "run_round specs client env i ids ct es")
    case (NextRound ids1 ct1 es1)
    with Suc.prems have "round_loop specs client env (Suc i) n ids1 ct1 es1 = Some (Inr (Finished ct' es'))"
      by simp
    moreover from run_round_inv(1)[OF Suc.prems(2) NextRound] have "store_inv ct1 es1" .
    ultimately show ?thesis by (rule Suc.IH)
  next
    case (Stop r)
    with Suc.prems have "run_round specs client env i ids ct es = Stop (Inr (Finished ct' es'))"
      by simp
    with run_round_inv(2)[OF Suc.prems(2)] show ?thesis by blast
  next
    case NoReturn
    with Suc.prems show ?thesis by simp
  qed
qed

lemma poll_fatal:
  assumes "\<forall>s \<in> set pre. s \<noteq> ''completed'' \<and> s \<notin> {''failed'', ''cancelled'', ''expired''}"
    and "status \<in> {''failed'', ''cancelled'', ''expired''}"
  shows "poll (pre @ status # post) = Some False"
  using assms by (induction pre) auto

lemma after_rounds_round_loop:
  "after_rounds specs client env i k ids ct es = Some (i', ids', ct', es') \<Longrightarrow>
   round_loop specs client env i (k + n) ids ct es = round_loop specs client env i' n ids' ct' es'"
proof (induction k arbitrary: i ids ct es)
  case 0
  then show ?case by simp
next
  case (Suc k)
  then show ?case by (cases "run_round specs client env i ids ct es") auto
qed

lemma after_rounds_index:
  "after_rounds specs client env i k ids ct es = Some (i', ids', ct', es') \<Longrightarrow> i' = i + k"
proof (induction k arbitrary: i ids ct es)
  case 0
  then show ?case by simp
next
  case (Suc k)
  then show ?case by (cases "run_round specs client env i ids ct es") fastforce+
qed

lemma run_round_next_nonempty:
  "run_round specs client env i ids ct es = NextRound ids' ct' es' \<Longrightarrow> ids' \<noteq> []"
  by (auto simp: run_round_def split: if_splits sum.splits option.splits fetched.splits)

lemma after_rounds_nonempty:
  "after_rounds specs client env i k ids ct es = Some (i', ids', ct', es') \<Longrightarrow> ids \<noteq> [] \<Longrightarrow>
   ids' \<noteq> []"
proof (induction k arbitrary: i ids ct es)
  case 0
  then show ?case by simp
next
  case (Suc k)
  show ?case
  proof (cases "run_round specs client env i ids ct es")
    case (NextRound ids1 ct1 es1)
    with Suc.prems have "after_rounds specs client env (Suc i) k ids1 ct1 es1 = Some (i', ids', ct', es')"
      by simp
    moreover from NextRound have "ids1 \<noteq> []" by (rule run_round_next_nonempty)
    ultimately show ?thesis by (rule Suc.IH)
  qed (use Suc.prems in auto)
qed


lemma first_occurrence:
  "sublist p t \<Longrightarrow> p \<noteq> [] \<Longrightarrow> \<exists>a b. t = a @ p @ b \<and> \<not> sublist p (a @ butlast p)"
proof (induction t)
  case Nil
  then show ?case by simp
next
  case (Cons x t)
  have short: "\<not> sublist p (butlast p)"
    using Cons.prems(2) by (metis sublist_length_le length_butlast diff_less length_greater_0_conv
        not_less zero_less_one)
  show ?case
  proof (cases "prefix p (x # t)")
    case True
    then obtain b where "x # t = p @ b" by (auto simp: prefix_def)
    with short show ?thesis by (intro exI[of _ "[]"] exI[of _ b]) simp
  next
    case False
    with Cons.prems(1) have "sublist p t" by (simp add: sublist_Cons_right)
    from Cons.IH[OF this Cons.prems(2)] obtain a b where
      ab: "t = a @ p @ b" "\<not> sublist p (a @ butlast p)" by blast
    have "\<not> prefix p (x # a @ butlast p)"
    proof
      assume "prefix p (x # a @ butlast p)"
      moreover have "prefix (x # a @ butlast p) (x # t)"
        unfolding ab(1) using Cons.prems(2)
        by (metis Cons_prefix_Cons append_butlast_last_id append.assoc prefixI same_prefix_prefix)
      ultimately have "prefix p (x # t)" by (meson prefix_order.trans)
      with False show False ..
    qed
    with ab(2) have "\<not> sublist p ((x # a) @ butlast p)" by (simp add: sublist_Cons_right)
    with ab(1) show ?thesis by (intro exI[of _ "x # a"] exI[of _ b]) simp
  qed
qed

lemma markers_nonempty:
  "INQUIRY_START \<noteq> []" "INQUIRY_END \<noteq> []" "SOLUTION_START \<noteq> []" "SOLUTION_END \<noteq> []"
  by (simp_all add: INQUIRY_START_def INQUIRY_END_def SOLUTION_START_def SOLUTION_END_def)

lemma inquiry_output:
  "inquiry (example_output_of meta c) = extract_block c INQUIRY_START INQUIRY_END"
  by (simp add: example_output_of_def Let_def)

lemma solution_output:
  "solution (example_output_of meta c) =
     (if extract_block c SOLUTION_START SOLUTION_END = [] then c
      else extract_block c SOLUTION_START SOLUTION_END)"
  by (simp add: example_output_of_def Let_def)

text \<open>
  Claim C2, amended. When the loop over rounds ends with the two dicts, every example of
  \<open>spec_by_custom_id\<close> whose stored text is not empty has an entry in the returned dict
  (examples have distinct keys), with its title, and:
  \<^item> the inquiry is empty when the text has no inquiry start marker, or none of the end
    marker after the first start marker; otherwise it is the stripped text between the first
    start marker and the first end marker after it;
  \<^item> the solution is the stripped text between the first solution start marker and the first
    end marker after it when both are there and that text is not blank; it is the whole stored
    text in every other case: no start marker, no end marker after it, or only white space
    between them.
\<close>

theorem run_example_batch_output:
  assumes fin: "round_loop specs client env 1 (nat max_rounds)
                  (map (\<lambda>(cid, meta). JStr cid) specs) Map.empty Map.empty =
                Some (Inr (Finished ct es))"
    and mem: "(cid, meta) \<in> set specs"
    and dist: "distinct (map (\<lambda>(cid, meta). output_key_of meta) specs)"
    and ne: "stored_text ct (JStr cid) \<noteq> []"
  shows "\<exists>outs out.
     run_example_batch specs client env max_rounds = Some (Inr outs) \<and>
     outs (output_key_of meta) = Some out \<and>
     title out = ex_title meta \<and>
     (\<not> sublist INQUIRY_START (stored_text ct (JStr cid)) \<longrightarrow> inquiry out = []) \<and>
     (\<forall>a b. stored_text ct (JStr cid) = a @ INQUIRY_START @ b \<and>
            \<not> sublist INQUIRY_START (a @ butlast INQUIRY_START) \<and> \<not> sublist INQUIRY_END b \<longrightarrow>
            inquiry out = []) \<and>
     (\<forall>a b d. stored_text ct (JStr cid) = a @ INQUIRY_START @ b @ INQUIRY_END @ d \<and>
            \<not> sublist INQUIRY_START (a @ butlast INQUIRY_START) \<and>
            \<not> sublist INQUIRY_END (b @ butlast INQUIRY_END) \<longrightarrow>
            inquiry out = strip b) \<and>
     (\<not> sublist SOLUTION_START (stored_text ct (JStr cid)) \<longrightarrow>
        solution out = stored_text ct (JStr cid)) \<and>
     (\<forall>a b. stored_text ct (JStr cid) = a @ SOLUTION_START @ b \<and>
            \<not> sublist SOLUTION_START (a @ butlast SOLUTION_START) \<and> \<not> sublist SOLUTION_END b \<longrightarrow>
            solution out = stored_text ct (JStr cid)) \<and>
     (\<forall>a b d. stored_text ct (JStr cid) = a @ SOLUTION_START @ b @ SOLUTION_END @ d \<and>
            \<not> sublist SOLUTION_START (a @ butlast SOLUTION_START) \<and>
            \<not> sublist SOLUTION_END (b @ butlast SOLUTION_END) \<longrightarrow>
            solution out = (if list_all py_isspace b then stored_text ct (JStr cid) else strip b)) \<and>
     (solution out = stored_text ct (JStr cid) \<longleftrightarrow>
        extract_block (stored_text ct (JStr cid)) SOLUTION_START SOLUTION_END = [])"
proof -
  let ?c = "stored_text ct (JStr cid)"
  from mem have specs: "specs \<noteq> []" by auto
  from round_loop_inv[OF fin store_inv_empty] have "stripped ?c" by (rule stored_text_stripped)
  then have sc: "strip ?c = ?c" by (rule strip_stripped)
  let ?out = "example_output_of meta ?c"
  have run: "run_example_batch specs client env max_rounds = Some (Inr (build_outputs specs ct Map.empty))"
    using specs fin by (simp add: run_example_batch_def)
  have look: "build_outputs specs ct Map.empty (output_key_of meta) = Some ?out"
    using build_outputs_lookup[OF mem dist, of ct Map.empty] ne sc by simp
  note inq = inquiry_output and sol = solution_output
  have 1: "\<not> sublist INQUIRY_START ?c \<longrightarrow> inquiry ?out = []"
    by (simp add: inq extract_block_no_start)
  have 2: "\<forall>a b. ?c = a @ INQUIRY_START @ b \<and>
            \<not> sublist INQUIRY_START (a @ butlast INQUIRY_START) \<and> \<not> sublist INQUIRY_END b \<longrightarrow>
            inquiry ?out = []"
    by (auto simp: inq extract_block_no_end)
  have 3: "\<forall>a b d. ?c = a @ INQUIRY_START @ b @ INQUIRY_END @ d \<and>
            \<not> sublist INQUIRY_START (a @ butlast INQUIRY_START) \<and>
            \<not> sublist INQUIRY_END (b @ butlast INQUIRY_END) \<longrightarrow>
            inquiry ?out = strip b"
    by (auto simp: inq extract_block_between)
  have 4: "\<not> sublist SOLUTION_START ?c \<longrightarrow> solution ?out = ?c"
    by (simp add: sol extract_block_no_start)
  have 5: "\<forall>a b. ?c = a @ SOLUTION_START @ b \<and>
            \<not> sublist SOLUTION_START (a @ butlast SOLUTION_START) \<and> \<not> sublist SOLUTION_END b \<longrightarrow>
            solution ?out = ?c"
    by (auto simp: sol extract_block_no_end)
  have 6: "\<forall>a b d. ?c = a @ SOLUTION_START @ b @ SOLUTION_END @ d \<and>
            \<not> sublist SOLUTION_START (a @ butlast SOLUTION_START) \<and>
            \<not> sublist SOLUTION_END (b @ butlast SOLUTION_END) \<longrightarrow>
            solution ?out = (if list_all py_isspace b then ?c else strip b)"
    by (auto simp: sol extract_block_between strip_Nil_iff)
  have "length (extract_block ?c SOLUTION_START SOLUTION_END) < length ?c"
    using markers_nonempty(3) ne by (rule extract_block_shorter)
  then have 7: "solution ?out = ?c \<longleftrightarrow> extract_block ?c SOLUTION_START SOLUTION_END = []"
    by (auto simp: sol)
  have t: "title ?out = ex_title meta" by (simp add: example_output_of_def Let_def)
  from run look t 1 2 3 4 5 6 7 show ?thesis by blast
qed

theorem run_example_batch_output_witness:
  "\<exists>ct es outs out.
     round_loop mock_specs False env_single 1 (nat 1)
       (map (\<lambda>(cid, meta). JStr cid) mock_specs) Map.empty Map.empty = Some (Inr (Finished ct es)) \<and>
     (''example::1'', meta1) \<in> set mock_specs \<and>
     distinct (map (\<lambda>(cid, meta). output_key_of meta) mock_specs) \<and>
     stored_text ct (JStr ''example::1'') \<noteq> [] \<and>
     run_example_batch mock_specs False env_single 1 = Some (Inr outs) \<and>
     outs (output_key_of meta1) = Some out \<and> title out = ''Path Independence''"
proof -
  have "(case round_loop mock_specs False env_single 1 (nat 1)
               (map (\<lambda>(cid, meta). JStr cid) mock_specs) Map.empty Map.empty of
           Some (Inr (Finished ct es)) \<Rightarrow> stored_text ct (JStr ''example::1'') \<noteq> []
         | _ \<Rightarrow> False)"
    by code_simp
  then obtain ct es where
    fin: "round_loop mock_specs False env_single 1 (nat 1)
            (map (\<lambda>(cid, meta). JStr cid) mock_specs) Map.empty Map.empty = Some (Inr (Finished ct es))"
    and ne: "stored_text ct (JStr ''example::1'') \<noteq> []"
    by (auto split: option.splits sum.splits loop_result.splits)
  have mem: "(''example::1'', meta1) \<in> set mock_specs" by (simp add: mock_specs_def)
  have dist: "distinct (map (\<lambda>(cid, meta). output_key_of meta) mock_specs)" by code_simp
  have t: "ex_title meta1 = ''Path Independence''" by (simp add: meta1_def)
  from run_example_batch_output[OF fin mem dist ne] obtain outs out where
    "run_example_batch mock_specs False env_single 1 = Some (Inr outs)"
    "outs (output_key_of meta1) = Some out" "title out = ex_title meta1"
    by blast
  with fin mem dist ne t show ?thesis by auto
qed

text \<open>
  Claim C2 as stated fails on the second example of the test: its text holds the solution
  start marker and no end marker, and the solution returned is the whole text.
\<close>

theorem run_example_batch_output_counterexample:
  "run_example_batch mock_specs False env_single 1 \<noteq> None \<and>
   \<not> isl (the (run_example_batch mock_specs False env_single 1)) \<and>
   map_option solution
     (projr (the (run_example_batch mock_specs False env_single 1)) (output_key_of meta1)) =
     Some partial_text \<and>
   sublist SOLUTION_START partial_text"
  by code_simp

section \<open>A failed batch job\<close>

text \<open>
  Claim C3, amended. Let \<open>k\<close> rounds each end with examples still incomplete, so that
  round \<open>n = k + 1\<close> begins, within the round budget; let the request file of round
  \<open>n\<close> be written, no results file of that round be on disk, a client be there, and the
  polled status become \<open>failed\<close>, \<open>cancelled\<close> or \<open>expired\<close> before it is
  \<open>completed\<close>. Then \<open>run_example_batch\<close> returns the empty dict: no example has an
  entry, whatever earlier rounds completed.
\<close>

theorem fatal_status_returns_empty:
  assumes specs: "specs \<noteq> []"
    and reach: "after_rounds specs client env 1 k (map (\<lambda>(cid, meta). JStr cid) specs)
                  Map.empty Map.empty = Some (n, remaining_ids, ct, es)"
    and k: "k < nat max_rounds"
    and reqs: "build_requests specs n ct remaining_ids = Inr reqs"
    and nofile: "existing_results (env n) = None"
    and client: "client"
    and statuses: "job_statuses (env n) = pre @ status # post"
    and pre: "\<forall>s \<in> set pre. s \<noteq> ''completed'' \<and> s \<notin> {''failed'', ''cancelled'', ''expired''}"
    and fatal: "status \<in> {''failed'', ''cancelled'', ''expired''}"
  shows "n = k + 1 \<and> run_example_batch specs client env max_rounds = Some (Inr Map.empty)"
proof -
  from after_rounds_index[OF reach] have n: "n = k + 1" by simp
  from specs have "map (\<lambda>(cid, meta). JStr cid) specs \<noteq> []" by simp
  with after_rounds_nonempty[OF reach] have ne: "remaining_ids \<noteq> []" by simp
  from poll_fatal[OF pre fatal] statuses have "poll (job_statuses (env n)) = Some False" by simp
  with nofile client have "fetch_results client (env n) = Some ReturnEmpty"
    by (simp add: fetch_results_def)
  with ne reqs have rr: "run_round specs client env n remaining_ids ct es = Stop (Inr Aborted)"
    by (simp add: run_round_def)
  from k obtain m where m: "nat max_rounds = k + Suc m"
    by (metis less_imp_Suc_add add_Suc_right)
  have "round_loop specs client env 1 (nat max_rounds) (map (\<lambda>(cid, meta). JStr cid) specs)
          Map.empty Map.empty = round_loop specs client env n (Suc m) remaining_ids ct es"
    unfolding m by (rule after_rounds_round_loop[OF reach])
  also have "\<dots> = Some (Inr Aborted)" using rr by simp
  finally show ?thesis using specs n by (simp add: run_example_batch_def)
qed

theorem fatal_status_returns_empty_witness:
  "\<exists>ids ct es reqs.
     mock_specs \<noteq> [] \<and>
     after_rounds mock_specs True env_failed 1 1 (map (\<lambda>(cid, meta). JStr cid) mock_specs)
       Map.empty Map.empty = Some (2, ids, ct, es) \<and>
     1 < nat 3 \<and>
     build_requests mock_specs 2 ct ids = Inr reqs \<and>
     existing_results (env_failed 2) = None \<and>
     job_statuses (env_failed 2) = [''in_progress''] @ ''failed'' # [] \<and>
     run_example_batch mock_specs True env_failed 3 = Some (Inr Map.empty)"
proof -
  have "(case after_rounds mock_specs True env_failed 1 1
               (map (\<lambda>(cid, meta). JStr cid) mock_specs) Map.empty Map.empty of
           Some (n, ids, ct, es) \<Rightarrow> n = 2 \<and> \<not> isl (build_requests mock_specs 2 ct ids)
         | None \<Rightarrow> False)"
    by code_simp
  then obtain ids ct es reqs where
    reach: "after_rounds mock_specs True env_failed 1 1
              (map (\<lambda>(cid, meta). JStr cid) mock_specs) Map.empty Map.empty = Some (2, ids, ct, es)"
    and reqs: "build_requests mock_specs 2 ct ids = Inr reqs"
    by (auto split: option.splits simp: isl_def) (metis sum.exhaust_sel sum.collapse(2))
  have specs: "mock_specs \<noteq> []" by (simp add: mock_specs_def)
  have k: "1 < nat 3" by simp
  have nofile: "existing_results (env_failed 2) = None" by (simp add: env_failed_def)
  have statuses: "job_statuses (env_failed 2) = [''in_progress''] @ ''failed'' # []"
    by (simp add: env_failed_def)
  have pre: "\<forall>s \<in> set [''in_progress'']. s \<noteq> ''completed'' \<and> s \<notin> {''failed'', ''cancelled'', ''expired''}"
    by simp
  have fatal: "''failed'' \<in> {''failed'', ''cancelled'', ''expired''}" by simp
  from fatal_status_returns_empty[OF specs reach k reqs nofile TrueI statuses pre fatal]
  have "run_example_batch mock_specs True env_failed 3 = Some (Inr Map.empty)" by simp
  with specs reach k reqs nofile statuses show ?thesis by blast
qed

text \<open>
  Claim C3 as stated fails: round 1 marks the first example completed, the job of round 2
  fails, and the returned dict has no entry for the first example.
\<close>

theorem fatal_status_returns_empty_counterexample:
  "map_option completed
     (example_state_by_id (projr (parse_round_results round1_results Map.empty Map.empty))
        (JStr ''example::0'')) = Some True \<and>
   job_statuses (env_failed 2) = [''in_progress'', ''failed''] \<and>
   run_example_batch mock_specs True env_failed 3 \<noteq> None \<and>
   \<not> isl (the (run_example_batch mock_specs True env_failed 3)) \<and>
   projr (the (run_example_batch mock_specs True env_failed 3)) (output_key_of meta0) = None"
  by code_simp


section \<open>Patching a region\<close>

lemma slice_assign_in_range:
  assumes "1 \<le> s" "s \<le> e" "e \<le> int (length xs)"
  shows "py_slice_assign xs (s - 1) e ys = take (nat (s - 1)) xs @ ys @ drop (nat e) xs"
proof -
  from assms have "slice_bound (length xs) (s - 1) = nat (s - 1)"
    unfolding slice_bound_def min_def by auto
  moreover from assms have "slice_bound (length xs) e = nat e"
    unfolding slice_bound_def min_def by auto
  moreover from assms have "max (nat (s - 1)) (nat e) = nat e" by simp
  ultimately show ?thesis by (simp add: py_slice_assign_def Let_def)
qed

text \<open>
  Claim C4. For a region with \<open>1 \<le> start_line \<le> end_line \<le>\<close> the number of lines of
  the file, the patched file is the lines before \<open>start_line\<close>, then the lines of the
  fixer's output, then the lines after \<open>end_line\<close>: every line before the range keeps
  its place, every line after it is moved by the difference between the length of the output
  and the length of the range, and nothing else is added or left out.
\<close>

theorem new_all_lines_frame:
  assumes s: "1 \<le> start_line r" and se: "start_line r \<le> end_line r"
    and e: "end_line r \<le> int (length all_lines)"
  shows "new_all_lines all_lines r new_block =
           take (nat (start_line r - 1)) all_lines @ new_block @ drop (nat (end_line r)) all_lines \<and>
         int (length (new_all_lines all_lines r new_block)) =
           int (length all_lines) + (int (length new_block) - (end_line r - start_line r + 1)) \<and>
         (\<forall>i. i < nat (start_line r - 1) \<longrightarrow>
              new_all_lines all_lines r new_block ! i = all_lines ! i) \<and>
         (\<forall>j. j < length new_block \<longrightarrow>
              new_all_lines all_lines r new_block ! (nat (start_line r - 1) + j) = new_block ! j) \<and>
         (\<forall>i. nat (end_line r) \<le> i \<and> i < length all_lines \<longrightarrow>
              new_all_lines all_lines r new_block !
                nat (int i + (int (length new_block) - (end_line r - start_line r + 1))) =
              all_lines ! i)"
proof -
  let ?a = "nat (start_line r - 1)" and ?b = "nat (end_line r)"
  let ?new = "new_all_lines all_lines r new_block"
  have eq: "?new = take ?a all_lines @ new_block @ drop ?b all_lines"
    unfolding new_all_lines_def using s se e by (rule slice_assign_in_range)
  have la: "length (take ?a all_lines) = ?a" using s se e by simp
  have len: "int (length ?new) =
           int (length all_lines) + (int (length new_block) - (end_line r - start_line r + 1))"
    unfolding eq using s se e by simp
  have before: "\<forall>i. i < ?a \<longrightarrow> ?new ! i = all_lines ! i"
    unfolding eq using la by (simp add: nth_append)
  have mid: "\<forall>j. j < length new_block \<longrightarrow> ?new ! (?a + j) = new_block ! j"
    unfolding eq using la by (simp add: nth_append)
  have after: "\<forall>i. ?b \<le> i \<and> i < length all_lines \<longrightarrow>
              ?new ! nat (int i + (int (length new_block) - (end_line r - start_line r + 1))) =
              all_lines ! i"
  proof (intro allI impI)
    fix i assume i: "?b \<le> i \<and> i < length all_lines"
    have idx: "nat (int i + (int (length new_block) - (end_line r - start_line r + 1))) =
            ?a + length new_block + (i - ?b)"
      using s se e i by linarith
    have "?new ! (?a + length new_block + (i - ?b)) = drop ?b all_lines ! (i - ?b)"
      unfolding eq using la by (simp add: nth_append)
    also have "\<dots> = all_lines ! i" using i by simp
    finally show "?new ! nat (int i + (int (length new_block) - (end_line r - start_line r + 1))) =
              all_lines ! i"
      unfolding idx .
  qed
  from eq len before mid after show ?thesis by blast
qed

theorem new_all_lines_frame_witness:
  "1 \<le> start_line region3 \<and> start_line region3 \<le> end_line region3 \<and>
   end_line region3 \<le> int (length five_lines) \<and>
   new_all_lines five_lines region3 [''good line 3'', ''one more''] =
     [''line 1'', ''line 2'', ''good line 3'', ''one more'', ''line 4'', ''line 5'']"
proof -
  have h1: "1 \<le> start_line region3" by (simp add: region3_def)
  have h2: "start_line region3 \<le> end_line region3" by (simp add: region3_def)
  have h3: "end_line region3 \<le> int (length five_lines)" by (simp add: region3_def five_lines_def)
  from new_all_lines_frame[OF h1 h2 h3, of "[''good line 3'', ''one more'']"]
  have "new_all_lines five_lines region3 [''good line 3'', ''one more''] =
          take (nat (start_line region3 - 1)) five_lines @ [''good line 3'', ''one more''] @
          drop (nat (end_line region3)) five_lines"
    by blast
  then have "new_all_lines five_lines region3 [''good line 3'', ''one more''] =
     [''line 1'', ''line 2'', ''good line 3'', ''one more'', ''line 4'', ''line 5'']"
    by (simp add: region3_def five_lines_def)
  with h1 h2 h3 show ?thesis by blast
qed

section \<open>The regions of a log\<close>

lemma take_drop_nth: "hi \<le> length xs \<Longrightarrow> take (hi - lo) (drop lo xs) = map ((!) xs) [lo..<hi]"
  by (rule nth_equalityI) auto

lemma py_slice_lines:
  assumes "1 \<le> s" "0 \<le> e" "e \<le> int (length xs)"
  shows "py_slice xs (s - 1) e = map ((!) xs) [nat (s - 1) ..< nat e]"
proof -
  from assms have hi: "slice_bound (length xs) e = nat e"
    unfolding slice_bound_def min_def by auto
  from assms have lo: "slice_bound (length xs) (s - 1) = min (length xs) (nat (s - 1))"
    unfolding slice_bound_def by auto
  show ?thesis
  proof (cases "nat (s - 1) \<le> length xs")
    case True
    with lo have "slice_bound (length xs) (s - 1) = nat (s - 1)" by simp
    with hi assms show ?thesis by (simp add: py_slice_def Let_def take_drop_nth)
  next
    case False
    with assms have "nat e \<le> nat (s - 1)" by linarith
    moreover from False lo have "slice_bound (length xs) (s - 1) = length xs" by simp
    ultimately show ?thesis using hi by (simp add: py_slice_def Let_def)
  qed
qed

lemma make_region_fields:
  "rfile (make_region f n radius ls) = f"
  "error_line (make_region f n radius ls) = int n"
  "start_line (make_region f n radius ls) = max 1 (int n - radius)"
  "end_line (make_region f n radius ls) = min (int (length ls)) (int n + radius)"
  "snippet_raw (make_region f n radius ls) =
     py_slice ls (max 1 (int n - radius) - 1) (min (int (length ls)) (int n + radius))"
  by (simp_all add: make_region_def Let_def)

lemma make_region_snippet:
  assumes "0 \<le> radius"
  shows "snippet_raw (make_region f n radius ls) =
           map ((!) ls) [nat (start_line (make_region f n radius ls) - 1) ..<
                         nat (end_line (make_region f n radius ls))]"
  unfolding make_region_fields using assms by (intro py_slice_lines) auto

lemma collect_loop_mem:
  "r \<in> set (collect_loop fs radius seen errs) \<Longrightarrow>
   \<exists>err \<in> set errs. \<exists>ls. fs (guess_file (context_chunk err)) = Some ls \<and>
      r = make_region (guess_file (context_chunk err)) (line err) radius ls"
proof (induction errs arbitrary: seen)
  case Nil
  then show ?case by simp
next
  case (Cons err errs)
  then show ?case
    by (fastforce simp: Let_def split: if_splits option.splits)
qed

lemma collect_regions_mem:
  assumes "r \<in> set (collect_regions log_lines fs radius)"
  shows "\<exists>err \<in> set (parse_errors log_lines). \<exists>ls. fs (rfile r) = Some ls \<and>
      rfile r = guess_file (context_chunk err) \<and> r = make_region (rfile r) (line err) radius ls"
proof -
  from assms obtain err ls where "err \<in> set (parse_errors log_lines)"
    "fs (guess_file (context_chunk err)) = Some ls"
    "r = make_region (guess_file (context_chunk err)) (line err) radius ls"
    unfolding collect_regions_def using collect_loop_mem by blast
  then show ?thesis by (metis make_region_fields(1))
qed

text \<open>
  Claim C5, amended. For a context of at least 0 lines, every region has a file that exists,
  its snippet is the lines \<open>start_line\<close> to \<open>end_line\<close> of that file (none when
  \<open>start_line > end_line\<close>), \<open>1 \<le> start_line\<close> and \<open>end_line\<close> is at most the
  number of lines; and \<open>start_line \<le> error_line \<le> end_line\<close> holds exactly when the
  error line is a line of the file.
\<close>

theorem region_invariant:
  assumes r: "r \<in> set (collect_regions log_lines fs radius)" and radius: "0 \<le> radius"
  shows "\<exists>ls. fs (rfile r) = Some ls \<and>
     snippet_raw r = map ((!) ls) [nat (start_line r - 1) ..< nat (end_line r)] \<and>
     1 \<le> start_line r \<and> 0 \<le> end_line r \<and> end_line r \<le> int (length ls) \<and>
     ((start_line r \<le> error_line r \<and> error_line r \<le> end_line r) \<longleftrightarrow>
      (1 \<le> error_line r \<and> error_line r \<le> int (length ls)))"
proof -
  from collect_regions_mem[OF r] obtain err :: base_error and ls where
    ls: "fs (rfile r) = Some ls" and mk: "r = make_region (rfile r) (line err) radius ls"
    by blast
  have 1: "snippet_raw r = map ((!) ls) [nat (start_line r - 1) ..< nat (end_line r)]"
    by (subst (1 2 3) mk) (rule make_region_snippet[OF radius])
  have s: "start_line r = max 1 (int (line err) - radius)"
    by (subst mk) (rule make_region_fields)
  have e: "end_line r = min (int (length ls)) (int (line err) + radius)"
    by (subst mk) (rule make_region_fields)
  have c: "error_line r = int (line err)"
    by (subst mk) (rule make_region_fields)
  from s e c radius have
    "1 \<le> start_line r \<and> 0 \<le> end_line r \<and> end_line r \<le> int (length ls) \<and>
     ((start_line r \<le> error_line r \<and> error_line r \<le> end_line r) \<longleftrightarrow>
      (1 \<le> error_line r \<and> error_line r \<le> int (length ls)))"
    by auto
  with ls 1 show ?thesis by blast
qed

theorem region_invariant_witness:
  "hd (collect_regions test_log test_fs 3) \<in> set (collect_regions test_log test_fs 3) \<and>
   (0::int) \<le> 3 \<and>
   start_line (hd (collect_regions test_log test_fs 3))
     \<le> error_line (hd (collect_regions test_log test_fs 3)) \<and>
   error_line (hd (collect_regions test_log test_fs 3))
     \<le> end_line (hd (collect_regions test_log test_fs 3))"
proof -
  have m: "hd (collect_regions test_log test_fs 3) \<in> set (collect_regions test_log test_fs 3)"
    by code_simp
  have f: "test_fs (rfile (hd (collect_regions test_log test_fs 3))) = Some pde_lines \<and>
     1 \<le> error_line (hd (collect_regions test_log test_fs 3)) \<and>
     error_line (hd (collect_regions test_log test_fs 3)) \<le> int (length pde_lines)"
    by code_simp
  have "(0::int) \<le> 3" by simp
  from region_invariant[OF m this] f
  have "start_line (hd (collect_regions test_log test_fs 3))
     \<le> error_line (hd (collect_regions test_log test_fs 3)) \<and>
   error_line (hd (collect_regions test_log test_fs 3))
     \<le> end_line (hd (collect_regions test_log test_fs 3))"
    by auto
  with m show ?thesis by simp
qed

text \<open>
  Claim C5 as stated fails when the log reports a line that the file does not have: an error
  at line 50 of a file of three lines gives a region from 40 to 3.
\<close>

theorem region_invariant_counterexample:
  "length (collect_regions short_log short_fs 10) = 1 \<and>
   rfile (hd (collect_regions short_log short_fs 10)) = ''main.tex'' \<and>
   start_line (hd (collect_regions short_log short_fs 10)) = 40 \<and>
   error_line (hd (collect_regions short_log short_fs 10)) = 50 \<and>
   end_line (hd (collect_regions short_log short_fs 10)) = 3 \<and>
   \<not> error_line (hd (collect_regions short_log short_fs 10))
       \<le> end_line (hd (collect_regions short_log short_fs 10))"
  by code_simp






text \<open>The first test of \<open>tests/test_latex_scan_regions.py\<close>.\<close>

lemma collect_regions_test_log:
  "map rfile (collect_regions test_log test_fs 3) = [''themes/pde.tex''] \<and>
   map snippet_raw (collect_regions test_log test_fs 3) =
     [[''% line 17'', ''% line 18'', ''% line 19'',
       ''This is bad math: '' @ [CHR 0x5C] @ ''alpha + 1]'',
       ''% line 21'', ''% line 22'', ''% line 23'']]"
  by code_simp

section \<open>The file of an error\<close>

lemma findall_from_skip: "findall_from n s = findall_from 0 (drop n s)"
proof (induction s arbitrary: n)
  case Nil
  then show ?case by simp
next
  case (Cons c cs)
  then show ?case by (cases n) simp_all
qed

lemma str_rindex_None: "str_rindex s p = None \<longleftrightarrow> \<not> sublist p s"
  by (induction s) (auto simp: sublist_Cons_right split: option.splits)

lemma str_rindex_bound: "str_rindex s p = Some k \<Longrightarrow> k + length p \<le> length s"
proof (induction s arbitrary: k)
  case Nil
  then show ?case by (simp split: if_splits)
next
  case (Cons c cs)
  then show ?case
    by (auto split: option.splits if_splits dest: prefix_length_le)
qed

lemma str_rindex_last:
  assumes "p \<noteq> []" "\<not> sublist p (tl p @ r)"
  shows "str_rindex (a @ p @ r) p = Some (length a)"
proof (induction a)
  case Nil
  from assms obtain x p' where p: "p = x # p'" by (cases p) auto
  with assms(2) have "str_rindex (p' @ r) p = None" by (simp add: str_rindex_None)
  then show ?case by (simp add: p)
next
  case (Cons y a)
  then show ?case by simp
qed

lemma match_len_pos:
  "match_file_marker text = Some (g, len) \<Longrightarrow> 0 < len"
  by (auto simp: match_file_marker_def split: option.splits list.splits)

lemma findall_from_unfold:
  "text \<noteq> [] \<Longrightarrow>
   findall_from 0 text =
     (case match_file_marker text of
        None \<Rightarrow> findall_from 0 (tl text)
      | Some (g, len) \<Rightarrow> g # findall_from 0 (drop len text))"
proof (cases "text")
  case Nil
  assume "text \<noteq> []"
  with Nil show ?thesis by simp
next
  case (Cons c cs)
  show ?thesis
  proof (cases "match_file_marker text")
    case None
    with Cons show ?thesis by simp
  next
    case (Some p)
    obtain g len where p: "p = (g, len)" by (cases p)
    with Some have "0 < len" using match_len_pos by blast
    then obtain l where l: "len = Suc l" by (cases len) auto
    have "findall_from l cs = findall_from 0 (drop l cs)" by (rule findall_from_skip)
    with Some Cons p l show ?thesis by simp
  qed
qed

lemma marker_dir_cases:
  "marker_dir text = Some dir \<Longrightarrow>
   (dir = ''themes'' \<or> dir = ''exams'') \<and> prefix (''(./'' @ dir @ ''/'') text"
  by (auto simp: marker_dir_def split: if_splits)

lemma marker_dir_sublist:
  "marker_dir text = Some dir \<Longrightarrow> sublist ''(./themes/'' text \<or> sublist ''(./exams/'' text"
  by (auto simp: marker_dir_def split: if_splits)

lemma match_marker_dir:
  "match_file_marker text = Some (g, len) \<Longrightarrow> \<exists>dir. marker_dir text = Some dir"
  by (auto simp: match_file_marker_def split: option.splits)

lemma findall_none:
  "\<not> sublist ''(./themes/'' t \<Longrightarrow> \<not> sublist ''(./exams/'' t \<Longrightarrow> findall_from 0 t = []"
proof (induction t)
  case Nil
  then show ?case by simp
next
  case (Cons c cs)
  have "match_file_marker (c # cs) = None"
  proof (cases "match_file_marker (c # cs)")
    case (Some p)
    then obtain dir where "marker_dir (c # cs) = Some dir"
      using match_marker_dir by (cases p) blast
    with Cons.prems marker_dir_sublist show ?thesis by blast
  qed simp
  moreover from Cons.prems have "\<not> sublist ''(./themes/'' cs" "\<not> sublist ''(./exams/'' cs"
    by (simp_all add: sublist_Cons_right)
  ultimately show ?case using Cons.IH by simp
qed

lemma no_later_tex:
  "\<not> sublist ''.tex'' r \<Longrightarrow> \<not> sublist ''.tex'' (tl ''.tex'' @ r)"
  by (simp add: sublist_Cons_right)

lemma take_len_app: "n = length xs \<Longrightarrow> take n (xs @ ys) = xs"
  by simp

lemma match_file_marker_eq:
  assumes "marker_dir t = Some dir"
    and "takeWhile (\<lambda>c. c \<noteq> CHR '')'') (drop (length dir + 4) t) = c # cs"
    and "str_rindex cs ''.tex'' = Some k"
  shows "match_file_marker t =
           Some (''./'' @ dir @ ''/'' @ take (k + 5) (c # cs), length dir + 4 + (k + 5))"
  using assms by (simp add: match_file_marker_def)

lemma match_marker:
  assumes dir: "dir = ''themes'' \<or> dir = ''exams''"
    and name: "name \<noteq> []" "CHR '')'' \<notin> set name"
    and post: "\<not> sublist ''.tex'' (takeWhile (\<lambda>c. c \<noteq> CHR '')'') post)"
  shows "match_file_marker (''(./'' @ dir @ ''/'' @ name @ ''.tex'' @ post) =
           Some (''./'' @ dir @ ''/'' @ name @ ''.tex'', length dir + 4 + (length name + 4))"
proof -
  let ?t = "''(./'' @ dir @ ''/'' @ name @ ''.tex'' @ post"
  let ?r = "takeWhile (\<lambda>c. c \<noteq> CHR '')'') post"
  from name(1) obtain c cs where n: "name = c # cs" by (cases name) auto
  from dir have md: "marker_dir ?t = Some dir"
    by (auto simp: marker_dir_def)
  from dir have dr: "drop (length dir + 4) ?t = name @ (''.tex'' @ post)" by auto
  from name(2) have "\<And>x. x \<in> set name \<Longrightarrow> x \<noteq> CHR '')''" by auto
  then have "takeWhile (\<lambda>c. c \<noteq> CHR '')'') (name @ (''.tex'' @ post)) =
        name @ takeWhile (\<lambda>c. c \<noteq> CHR '')'') (''.tex'' @ post)"
    by (rule takeWhile_append2)
  also have "\<dots> = c # (cs @ ''.tex'' @ ?r)" by (simp add: n)
  finally have tw: "takeWhile (\<lambda>c. c \<noteq> CHR '')'') (drop (length dir + 4) ?t) =
                      c # (cs @ ''.tex'' @ ?r)"
    unfolding dr .
  have ri: "str_rindex (cs @ ''.tex'' @ ?r) ''.tex'' = Some (length cs)"
    by (rule str_rindex_last) (use post no_later_tex in auto)
  have "take (length cs + 5) ((c # cs @ ''.tex'') @ ?r) = c # cs @ ''.tex''"
    by (rule take_len_app) simp
  then have tk: "take (length cs + 5) (c # (cs @ ''.tex'' @ ?r)) = name @ ''.tex''"
    by (simp add: n)
  have ln: "length dir + 4 + (length cs + 5) = length dir + 4 + (length name + 4)"
    by (simp add: n)
  from match_file_marker_eq[OF md tw ri] show ?thesis
    unfolding tk ln .
qed

lemma marker_dir_straddle:
  assumes "marker_dir (pre @ m) = Some dir" "pre \<noteq> []" "m \<noteq> []" "hd m = CHR ''(''"
  shows "marker_dir pre = Some dir"
proof -
  let ?op = "''(./'' @ dir @ ''/''"
  from marker_dir_cases[OF assms(1)] have d: "dir = ''themes'' \<or> dir = ''exams''"
    and p: "prefix ?op (pre @ m)" by auto
  from d have notin: "CHR ''('' \<notin> set (tl ?op)" by auto
  have "prefix ?op pre"
  proof (rule ccontr)
    assume np: "\<not> prefix ?op pre"
    with p obtain us where us: "?op = pre @ us" "prefix us m"
      by (auto simp: prefix_append)
    with np have "us \<noteq> []" by auto
    with us(2) assms(3,4) have "hd us = CHR ''(''"
      by (metis hd_append2 prefix_def)
    with \<open>us \<noteq> []\<close> have "CHR ''('' \<in> set us" by (metis hd_in_set)
    moreover from us(1) assms(2) have "set us \<subseteq> set (tl ?op)"
      by (metis list.sel(3) list.exhaust append_Cons set_append Un_upper2 tl_append2)
    ultimately show False using notin by blast
  qed
  moreover have "\<not> (prefix ''(./themes/'' pre \<and> prefix ''(./exams/'' pre)"
    by (auto simp: prefix_def)
  ultimately show ?thesis using d by (auto simp: marker_dir_def)
qed

lemma markers_closed_drop: "markers_closed s \<Longrightarrow> markers_closed (drop n s)"
proof (induction s arbitrary: n)
  case Nil
  then show ?case by simp
next
  case (Cons c cs)
  then show ?case by (cases n) auto
qed

lemma match_within:
  assumes mt: "match_file_marker (pre @ m) = Some (g, len)"
    and pre: "pre \<noteq> []" and m: "m \<noteq> []" "hd m = CHR ''(''"
    and closed: "markers_closed pre"
  shows "len \<le> length pre"
proof -
  from mt obtain dir where md: "marker_dir (pre @ m) = Some dir"
    using match_marker_dir by blast
  from marker_dir_straddle[OF md pre m] have mdp: "marker_dir pre = Some dir" .
  from marker_dir_cases[OF mdp] have le: "length dir + 4 \<le> length pre"
    by (auto dest: prefix_length_le)
  from pre obtain c cs where pc: "pre = c # cs" by (cases pre) auto
  from closed mdp have cl: "CHR '')'' \<in> set (drop (length dir + 4) pre)"
    unfolding pc by simp
  let ?v = "drop (length dir + 4) pre"
  have dr: "drop (length dir + 4) (pre @ m) = ?v @ m" using le by simp
  from cl have run: "takeWhile (\<lambda>c. c \<noteq> CHR '')'') (?v @ m) = takeWhile (\<lambda>c. c \<noteq> CHR '')'') ?v"
    by (intro takeWhile_append1[of "CHR '')''"]) auto
  from mt md have "(case takeWhile (\<lambda>c. c \<noteq> CHR '')'') (drop (length dir + 4) (pre @ m)) of
             [] \<Rightarrow> None
           | c # cs \<Rightarrow>
               (case str_rindex cs ''.tex'' of
                  None \<Rightarrow> None
                | Some k \<Rightarrow>
                    Some (''./'' @ dir @ ''/'' @ take (k + 5) (c # cs), length dir + 4 + (k + 5)))) =
          Some (g, len)"
    by (simp add: match_file_marker_def)
  then have "(case takeWhile (\<lambda>c. c \<noteq> CHR '')'') ?v of
             [] \<Rightarrow> None
           | c # cs \<Rightarrow>
               (case str_rindex cs ''.tex'' of
                  None \<Rightarrow> None
                | Some k \<Rightarrow>
                    Some (''./'' @ dir @ ''/'' @ take (k + 5) (c # cs), length dir + 4 + (k + 5)))) =
          Some (g, len)"
    by (simp only: dr run)
  then obtain c0 cs0 k where
    rn: "takeWhile (\<lambda>c. c \<noteq> CHR '')'') ?v = c0 # cs0"
    and ri: "str_rindex cs0 ''.tex'' = Some k"
    and len: "len = length dir + 4 + (k + 5)"
    by (cases "takeWhile (\<lambda>c. c \<noteq> CHR '')'') ?v"; cases "str_rindex (tl (takeWhile (\<lambda>c. c \<noteq> CHR '')'') ?v)) ''.tex''")
       auto
  from str_rindex_bound[OF ri] have "k + 5 \<le> length (c0 # cs0)" by simp
  also have "\<dots> \<le> length ?v" unfolding rn[symmetric] by (rule length_takeWhile_le)
  finally have "k + 5 \<le> length pre - (length dir + 4)" by simp
  with le len show ?thesis by simp
qed

lemma findall_last:
  assumes M: "match_file_marker (m @ post) = Some (g, length m)"
    and m: "m \<noteq> []" "hd m = CHR ''(''"
    and post: "findall_from 0 post = []"
  shows "markers_closed pre \<Longrightarrow>
         findall_from 0 (pre @ m @ post) \<noteq> [] \<and> last (findall_from 0 (pre @ m @ post)) = g"
proof (induction pre rule: length_induct)
  case (1 pre)
  show ?case
  proof (cases "pre = []")
    case True
    with M m post show ?thesis by (simp add: findall_from_unfold)
  next
    case False
    then have ne: "pre @ m @ post \<noteq> []" by simp
    show ?thesis
    proof (cases "match_file_marker (pre @ m @ post)")
      case None
      from False have "length (tl pre) < length pre" by (cases pre) auto
      moreover from "1.prems" have "markers_closed (tl pre)"
        by (metis drop_Suc drop0 markers_closed_drop)
      ultimately have "findall_from 0 (tl pre @ m @ post) \<noteq> [] \<and>
                       last (findall_from 0 (tl pre @ m @ post)) = g"
        using "1.IH" by blast
      moreover have "findall_from 0 (pre @ m @ post) = findall_from 0 (tl pre @ m @ post)"
        using None False by (simp add: findall_from_unfold[OF ne])
      ultimately show ?thesis by simp
    next
      case (Some p)
      obtain g' len where p: "p = (g', len)" by (cases p)
      from Some p have mt: "match_file_marker (pre @ (m @ post)) = Some (g', len)" by simp
      from m have m': "m @ post \<noteq> []" "hd (m @ post) = CHR ''(''" by auto
      from match_within[OF mt False m' "1.prems"] have le: "len \<le> length pre" .
      from match_len_pos[OF mt] have pos: "0 < len" .
      from pos False le have "length (drop len pre) < length pre" by simp
      moreover from "1.prems" have "markers_closed (drop len pre)" by (rule markers_closed_drop)
      ultimately have ih: "findall_from 0 (drop len pre @ m @ post) \<noteq> [] \<and>
                       last (findall_from 0 (drop len pre @ m @ post)) = g"
        using "1.IH" by blast
      have "findall_from 0 (pre @ m @ post) = g' # findall_from 0 (drop len pre @ m @ post)"
        using Some p le by (simp add: findall_from_unfold[OF ne])
      with ih show ?thesis by simp
    qed
  qed
qed

lemma guess_file_main:
  "\<not> sublist ''(./themes/'' chunk \<Longrightarrow> \<not> sublist ''(./exams/'' chunk \<Longrightarrow>
   guess_file chunk = ''main.tex''"
  by (simp add: guess_file_def findall_none)

lemma guess_file_last_marker:
  assumes dir: "dir = ''themes'' \<or> dir = ''exams''"
    and name: "name \<noteq> []" "CHR '')'' \<notin> set name"
    and tex: "\<not> sublist ''.tex'' (takeWhile (\<lambda>c. c \<noteq> CHR '')'') post)"
    and post: "\<not> sublist ''(./themes/'' post" "\<not> sublist ''(./exams/'' post"
    and closed: "markers_closed pre"
  shows "guess_file (pre @ ''(./'' @ dir @ ''/'' @ name @ ''.tex'' @ post) =
           dir @ ''/'' @ name @ ''.tex''"
proof -
  let ?m = "''(./'' @ dir @ ''/'' @ name @ ''.tex''"
  let ?g = "''./'' @ dir @ ''/'' @ name @ ''.tex''"
  have "match_file_marker (?m @ post) = Some (?g, length ?m)"
    using match_marker[OF dir name tex] by simp
  moreover have "?m \<noteq> []" "hd ?m = CHR ''(''" by simp_all
  moreover have "findall_from 0 post = []" using post by (rule findall_none)
  ultimately have "findall_from 0 (pre @ ?m @ post) \<noteq> [] \<and>
                   last (findall_from 0 (pre @ ?m @ post)) = ?g"
    using closed by (rule findall_last)
  then have "guess_file (pre @ ?m @ post) = drop 2 ?g"
    by (auto simp: guess_file_def split: list.splits)
  then show ?thesis by simp
qed

lemma find_Some_mem: "find P xs = Some x \<Longrightarrow> x \<in> set xs"
  by (induction xs) (auto split: if_splits)

lemma map_filter_mem: "y \<in> set (List.map_filter f xs) \<Longrightarrow> \<exists>x \<in> set xs. f x = Some y"
  by (induction xs) (auto split: option.splits)

lemma find_lineno_Some:
  assumes "find_lineno lines i = Some (j, n)"
  shows "i < j \<and> j \<le> i + 5 \<and> j < length lines \<and> match_lineno (lines ! j) = Some n"
proof -
  from assms obtain j' where
    f: "find (\<lambda>j. match_lineno (lines ! j) \<noteq> None) [i + 1 ..< min (i + 6) (length lines)] = Some j'"
    and m: "map_option (\<lambda>n. (j', n)) (match_lineno (lines ! j')) = Some (j, n)"
    by (auto simp: find_lineno_def split: option.splits)
  from m have j: "j' = j" and mn: "match_lineno (lines ! j) = Some n" by auto
  from f have "j' \<in> set [i + 1 ..< min (i + 6) (length lines)]"
    by (rule find_Some_mem)
  with j mn show ?thesis by auto
qed

lemma parse_errors_mem:
  assumes "err \<in> set (parse_errors lines)"
  shows "\<exists>i j. i < j \<and> j \<le> i + 5 \<and> j < length lines \<and> is_error_line (lines ! i) \<and>
           match_lineno (lines ! j) = Some (line err) \<and>
           context_chunk err = join NL (py_slice lines (max 0 (int i - 20)) (int j + 1))"
proof -
  from assms have "\<exists>i \<in> set [0 ..< length lines]. error_at lines i = Some err"
    unfolding parse_errors_def by (rule map_filter_mem)
  then obtain i where i: "error_at lines i = Some err" by (elim bexE)
  then have e: "is_error_line (lines ! i)"
    by (auto simp: error_at_def split: if_splits)
  with i obtain j n where f: "find_lineno lines i = Some (j, n)"
    and err: "err = \<lparr>line = n, context_chunk = join NL (py_slice lines (max 0 (int i - 20)) (int j + 1))\<rparr>"
    by (cases "find_lineno lines i") (auto simp: error_at_def)
  from err have l: "line err = n"
    and c: "context_chunk err = join NL (py_slice lines (max 0 (int i - 20)) (int j + 1))"
    by simp_all
  from find_lineno_Some[OF f] e l c show ?thesis by blast
qed

text \<open>
  Where the markers of a text are apart, \<open>guess_file\<close> gives the main document for a
  text that opens no file under \<open>themes/\<close> or \<open>exams/\<close> (\<open>guess_file_main\<close>),
  and the file of the last marker when every file opened before it is followed by a closing
  parenthesis (\<open>guess_file_last_marker\<close>). The text searched for an error is the chunk
  of \<open>parse_errors\<close> (\<open>parse_errors_mem\<close>), which ends with the \<open>l.<N>\<close> line:
  a marker on that line is found too.
\<close>

lemma collect_regions_marker_on_error_line:
  "map rfile (collect_regions marker_on_error_log marker_on_error_fs 10) = [''themes/foo.tex''] \<and>
   is_error_line (marker_on_error_log ! 0) \<and>
   match_lineno (marker_on_error_log ! 1) = Some 5 \<and>
   file_by_preceding_lines marker_on_error_log 0 = ''main.tex'' \<and>
   file_by_preceding_lines marker_on_error_log 1 = ''main.tex''"
  by code_simp

text \<open>
  Claim C7, on a log in which \<open>themes/b.tex\<close> is opened inside \<open>themes/a.tex\<close>, so that
  no closing parenthesis stands between the two markers. The log has two errors; the marker
  of \<open>themes/b.tex\<close> is the line before the second error message and the last marker
  before it, and \<open>themes/b.tex\<close> exists. \<open>guess_file\<close> gives for the second error one
  path that runs from the first marker to the end of the second, not \<open>themes/b.tex\<close>;
  no such file exists, and the second error gets no region.
\<close>

theorem guess_file_nested_markers:
  "map line (parse_errors nested_log) = [2, 3] \<and>
   nested_log ! 3 = ''(./themes/b.tex'' \<and>
   is_error_line (nested_log ! 4) \<and>
   match_lineno (nested_log ! 5) = Some 3 \<and>
   nested_fs ''themes/b.tex'' \<noteq> None \<and>
   guess_file (context_chunk (parse_errors nested_log ! 1)) =
     ''themes/a.tex'' @ NL @ ''! Missing $ inserted.'' @ NL @ ''l.2 a bad line'' @ NL @
     ''(./themes/b.tex'' \<and>
   guess_file (context_chunk (parse_errors nested_log ! 1)) \<noteq> ''themes/b.tex'' \<and>
   map rfile (collect_regions nested_log nested_fs 1) = [''themes/a.tex'']"
  by code_simp

text \<open>The second and third test of \<open>tests/test_latex_scan_regions.py\<close>.\<close>

lemma collect_regions_two_files:
  "map rfile (collect_regions two_files_log two_files_fs 2) =
     [''themes/pde.tex'', ''themes/complex_analysis.tex''] \<and>
   map rfile (collect_regions main_only_log main_only_fs 1) = [''main.tex'']"
  by code_simp

end
